theory Spec2Isabelle
  imports Main "HOL-Library.Sublist" "HOL-Library.AList"
begin

text \<open>
  The class \<open>DailyNoteManager\<close> of \<open>src/plugin/daily-note-manager.ts\<close>: it renders
  the reminders of a date into the marked section of that date's daily note
  (\<open>updateDailyNote\<close>) and carries ticked boxes of that section back to the reminders
  (\<open>handleFileModify\<close>).
\<close>

section \<open>JavaScript string operations used by the manager\<close>

text \<open>
  A JavaScript string is modelled as a \<^typ>\<open>string\<close>: the list of its code units,
  a code unit being a \<^typ>\<open>char\<close>, so the model covers the code units below 256.
  Every operation below works on positions of that list, as the JavaScript operation works
  on code-unit positions, and none but \<open>trim\<close> and the key pattern looks at what a
  code unit is. \<open>indexOf\<close> returns the first position at which the pattern occurs and
  \<open>-1\<close> when there is none.
\<close>

fun indexOf :: "string \<Rightarrow> string \<Rightarrow> int" where
  "indexOf [] pat = (if pat = [] then 0 else - 1)"
| "indexOf (c # cs) pat =
     (if prefix pat (c # cs) then 0
      else (let i = indexOf cs pat in if i = - 1 then - 1 else i + 1))"

text \<open>\<open>s.includes(pat)\<close>.\<close>

definition str_includes :: "string \<Rightarrow> string \<Rightarrow> bool" where
  "str_includes s pat = (indexOf s pat \<noteq> - 1)"

text \<open>
  \<open>s.substring(a, b)\<close> and \<open>s.substring(a)\<close>: an index below zero counts as zero, one
  beyond the length as the length, and the two-argument form swaps its arguments when the
  first is the larger.
\<close>

definition clampIndex :: "string \<Rightarrow> int \<Rightarrow> nat" where
  "clampIndex s i = (if i < 0 then 0 else if int (length s) < i then length s else nat i)"

definition substring :: "string \<Rightarrow> int \<Rightarrow> int \<Rightarrow> string" where
  "substring s a b =
     (let x = clampIndex s a; y = clampIndex s b
      in take (max x y - min x y) (drop (min x y) s))"

definition substringFrom :: "string \<Rightarrow> int \<Rightarrow> string" where
  "substringFrom s a = drop (clampIndex s a) s"

text \<open>\<open>lines.join(sep)\<close>; the empty array joins to the empty string.\<close>

fun join :: "string \<Rightarrow> string list \<Rightarrow> string" where
  "join sep [] = []"
| "join sep [x] = x"
| "join sep (x # y # ys) = x @ sep @ join sep (y # ys)"

abbreviation newline :: string where
  "newline \<equiv> [CHR 0x0A]"

section \<open>Documents and reminders\<close>

text \<open>
  The fields of \<open>TFile\<close> that the manager reads; \<open>mtime\<close> is \<open>stat.mtime\<close>, a
  timestamp in milliseconds.
\<close>

record tfile =
  name :: string
  basename :: string
  path :: string
  mtime :: int

text \<open>
  The fields of \<open>Reminder\<close> that the manager reads: \<open>title\<close>, \<open>done\<close> (here
  \<open>rdone\<close>), \<open>file\<close> (here \<open>rfile\<close>) and the string that \<open>key()\<close> returns (here
  \<open>rkey\<close>). The class itself is declared outside this module.
\<close>

record reminder =
  title :: string
  rdone :: bool
  rfile :: string
  rkey :: string

section \<open>findDailyNote\<close>

text \<open>The callback of \<open>reduce\<close>: the earlier file is kept only when strictly newer.\<close>

definition newer :: "tfile \<Rightarrow> tfile \<Rightarrow> tfile" where
  "newer prev current = (if mtime prev > mtime current then prev else current)"

text \<open>
  \<open>findDailyNote\<close> over the array that \<open>getMarkdownFiles\<close> returned. \<open>reduce\<close>
  without an initial value starts from the first element and folds over the rest.
\<close>

definition exactMatches :: "string \<Rightarrow> tfile list \<Rightarrow> tfile list" where
  "exactMatches dateStr files = filter (\<lambda>f. basename f = dateStr) files"

definition looseMatches :: "string \<Rightarrow> tfile list \<Rightarrow> tfile list" where
  "looseMatches dateStr files = filter (\<lambda>f. str_includes (name f) dateStr) files"

definition matchingFiles :: "string \<Rightarrow> tfile list \<Rightarrow> tfile list" where
  "matchingFiles dateStr files =
     (if length (exactMatches dateStr files) = 0 then looseMatches dateStr files
      else exactMatches dateStr files)"

definition findDailyNote :: "string \<Rightarrow> tfile list \<Rightarrow> tfile option" where
  "findDailyNote dateStr files =
     (case matchingFiles dateStr files of
        [] \<Rightarrow> None
      | f # fs \<Rightarrow> Some (foldl newer f fs))"

section \<open>updateReminderSection\<close>

definition startMarker :: "string \<Rightarrow> string" where
  "startMarker marker = ''<!-- start of '' @ marker @ '' -->''"

definition endMarker :: "string \<Rightarrow> string" where
  "endMarker marker = ''<!-- end of '' @ marker @ '' -->''"

definition renderLine :: "reminder \<Rightarrow> string" where
  "renderLine r =
     ''- ['' @ (if rdone r then ''x'' else '' '') @ ''] '' @ title r @ '' [['' @ rfile r
       @ ''|source]] <!-- reminder-key: '' @ rkey r @ '' -->''"

definition reminderLines :: "reminder list \<Rightarrow> string" where
  "reminderLines reminders = join newline (map renderLine reminders)"

definition newSection :: "string \<Rightarrow> reminder list \<Rightarrow> string" where
  "newSection marker reminders =
     startMarker marker @ newline @ reminderLines reminders @ newline @ endMarker marker"

text \<open>
  \<open>None\<close> is \<open>null\<close>. The test of line 110 is written as two tests in the order
  \<open>||\<close> evaluates them.
\<close>

definition updateReminderSection :: "string \<Rightarrow> string \<Rightarrow> reminder list \<Rightarrow> string option" where
  "updateReminderSection marker content reminders =
     (let startIndex = indexOf content (startMarker marker);
          endIndex = indexOf content (endMarker marker)
      in if startIndex = - 1 then None
         else if endIndex = - 1 then None
         else Some (substring content 0 startIndex @ newSection marker reminders
                @ substringFrom content (endIndex + int (length (endMarker marker)))))"

section \<open>The vault, the settings and the trace of effects\<close>

text \<open>
  What an external call can throw. The manager never inspects the value; it only logs it.
\<close>

datatype error =
    EnumerateError
  | ReadError string
  | WriteError string
  | SinkError string
  | ByDateError
  | KeyError string

text \<open>
  The five notices of \<open>updateDailyNote\<close>, in source order: no daily note for the date
  (line 27), markers missing (line 44), note updated (line 53), note already up to date
  (line 56), update failed (line 61). The wording of a notice is presentation; the date or
  the marker label it quotes is kept.
\<close>

datatype notice =
    DailyNoteNotFound string
  | MarkerNotFound string
  | DailyNoteUpdated string
  | DailyNoteUpToDate
  | UpdateFailed

text \<open>
  The effects of the manager, in the order they happen: the call of \<open>getMarkdownFiles\<close>,
  of \<open>vault.read\<close> (with the path), of \<open>vault.modify\<close> (path and new text), a
  \<open>Notice\<close>, the \<open>console.error\<close> of the catch block, and a call of the injected
  \<open>updateReminder\<close>. A call is recorded when it is made, also when it then throws.
  The \<open>console.info\<close>, \<open>console.debug\<close> and \<open>console.warn\<close> lines are diagnostics
  with no effect on control flow and are left out.
\<close>

datatype event =
    GetMarkdownFiles
  | VaultRead string
  | VaultModify string string
  | Notice notice
  | ConsoleError error
  | UpdateReminder reminder bool

text \<open>
  The state the manager runs in: its own flag \<open>isUpdating\<close>, the two settings, the
  clock (\<open>today\<close> is \<open>DateTime.now().toYYYYMMDD()\<close>), the vault and the reminder
  collection. A \<open>DateTime\<close> is used only through \<open>toYYYYMMDD()\<close> and as the argument
  of \<open>byDate\<close>, so it is modelled as its \<open>YYYY-MM-DD\<close> string.

  The vault is external. \<open>markdownFiles\<close> is what \<open>getMarkdownFiles\<close> returns, or
  what it throws; \<open>contents\<close> maps a path to the text of its file, and reading a path
  it does not hold throws; modifying a path listed in \<open>readOnly\<close> throws. A write
  changes the text of the file and nothing else: the listing keeps the \<open>mtime\<close> it
  had. \<open>byDate\<close> is \<open>Reminders.byDate\<close>, declared outside this module and taken
  as it comes.
\<close>

record world =
  isUpdating :: bool
  autoEmbedTodosInDailyNote :: bool
  dailyNoteSectionMarker :: string
  today :: string
  markdownFiles :: "error + tfile list"
  contents :: "(string \<times> string) list"
  readOnly :: "string list"
  byDate :: "string \<Rightarrow> reminder list"
  trace :: "event list"

definition emit :: "event \<Rightarrow> world \<Rightarrow> world" where
  "emit ev w = w\<lparr>trace := trace w @ [ev]\<rparr>"

definition vaultRead :: "tfile \<Rightarrow> world \<Rightarrow> error + string" where
  "vaultRead file w =
     (case map_of (contents w) (path file) of
        None \<Rightarrow> Inl (ReadError (path file))
      | Some text \<Rightarrow> Inr text)"

definition vaultModify :: "tfile \<Rightarrow> string \<Rightarrow> world \<Rightarrow> error + world" where
  "vaultModify file text w =
     (if path file \<in> set (readOnly w) then Inl (WriteError (path file))
      else Inr (w\<lparr>contents := AList.update (path file) text (contents w)\<rparr>))"

section \<open>updateDailyNote\<close>

text \<open>
  A call returns a pair: \<open>None\<close> when it returns normally and \<open>Some e\<close> when \<open>e\<close>
  propagates to the caller (the promise is rejected), with the state it leaves behind.

  Two calls inside the \<open>try\<close> reach code outside this module and may throw:
  \<open>this.reminders.byDate(targetDate)\<close> (line 35) and \<open>r.key()\<close> (line 118, once for
  each reminder, in order, after both markers have been found). A value of \<open>faults\<close>
  says which of them throw and what: \<open>byDateFault\<close> for the first, \<open>keyFault r\<close> for the
  \<open>key()\<close> of the reminder \<open>r\<close>; \<open>None\<close> is a call that returns. The functions named
  \<open>...With\<close> are the source functions under given faults. \<open>noFaults\<close> is the case in
  which every such call returns: then \<open>updateReminderSectionWith\<close> is
  \<open>updateReminderSection\<close>, and \<open>updateDailyNote\<close> is defined as that case.
\<close>

record faults =
  byDateFault :: "error option"
  keyFault :: "reminder \<Rightarrow> error option"

definition noFaults :: faults where
  "noFaults = \<lparr>byDateFault = None, keyFault = (\<lambda>r. None)\<rparr>"

text \<open>What the first \<open>key()\<close> that throws, in the order of the array, throws.\<close>

fun firstFault :: "(reminder \<Rightarrow> error option) \<Rightarrow> reminder list \<Rightarrow> error option" where
  "firstFault kf [] = None"
| "firstFault kf (r # rs) = (case kf r of Some e \<Rightarrow> Some e | None \<Rightarrow> firstFault kf rs)"

text \<open>
  \<open>updateReminderSection\<close> with its calls of \<open>key()\<close>: it returns \<open>null\<close> before any
  of them when a marker is missing, throws what the first failing one throws, and else
  returns the new text.
\<close>

definition updateReminderSectionWith ::
  "faults \<Rightarrow> string \<Rightarrow> string \<Rightarrow> reminder list \<Rightarrow> error + string option" where
  "updateReminderSectionWith k marker content reminders =
     (if indexOf content (startMarker marker) = - 1 then Inr None
      else if indexOf content (endMarker marker) = - 1 then Inr None
      else (case firstFault (keyFault k) reminders of
              Some e \<Rightarrow> Inl e
            | None \<Rightarrow> Inr (updateReminderSection marker content reminders)))"

text \<open>
  \<open>tryBlockWith\<close> is the body of the \<open>try\<close> (lines 34 to 57); its first component is
  what was thrown inside it. \<open>catchBlock\<close> is lines 59 to 62.
\<close>

definition tryBlockWith ::
  "faults \<Rightarrow> bool \<Rightarrow> string \<Rightarrow> tfile \<Rightarrow> world \<Rightarrow> error option \<times> world" where
  "tryBlockWith k quiet targetDate dailyNote w =
     (case byDateFault k of
        Some e \<Rightarrow> (Some e, w)
      | None \<Rightarrow>
          (let todosOfDate = byDate w targetDate;
               w1 = emit (VaultRead (path dailyNote)) w
           in case vaultRead dailyNote w1 of
                Inl e \<Rightarrow> (Some e, w1)
              | Inr content \<Rightarrow>
                  (case updateReminderSectionWith k (dailyNoteSectionMarker w1) content
                          todosOfDate of
                     Inl e \<Rightarrow> (Some e, w1)
                   | Inr None \<Rightarrow>
                       (None, if \<not> quiet
                              then emit (Notice (MarkerNotFound (dailyNoteSectionMarker w1))) w1
                              else w1)
                   | Inr (Some newContentString) \<Rightarrow>
                       if content \<noteq> newContentString then
                         (let w2 = emit (VaultModify (path dailyNote) newContentString) w1
                          in case vaultModify dailyNote newContentString w2 of
                               Inl e \<Rightarrow> (Some e, w2)
                             | Inr w3 \<Rightarrow>
                                 (None, if \<not> quiet
                                        then emit (Notice (DailyNoteUpdated targetDate)) w3
                                        else w3))
                       else (None, if \<not> quiet then emit (Notice DailyNoteUpToDate) w1
                                   else w1))))"

definition catchBlock :: "bool \<Rightarrow> error \<Rightarrow> world \<Rightarrow> world" where
  "catchBlock quiet e w =
     (let w1 = emit (ConsoleError e) w
      in if \<not> quiet then emit (Notice UpdateFailed) w1 else w1)"

text \<open>
  The guard of line 19 is written as two tests in the order \<open>||\<close> evaluates them.
  \<open>specificDate || DateTime.now()\<close>: a given date is an object, hence truthy.
\<close>

definition updateDailyNoteWith ::
  "faults \<Rightarrow> bool \<Rightarrow> string option \<Rightarrow> world \<Rightarrow> error option \<times> world" where
  "updateDailyNoteWith k quiet specificDate w =
     (if \<not> autoEmbedTodosInDailyNote w then (None, w)
      else if isUpdating w then (None, w)
      else
        (let targetDate = (case specificDate of Some d \<Rightarrow> d | None \<Rightarrow> today w);
             w0 = emit GetMarkdownFiles w
         in case markdownFiles w0 of
              Inl e \<Rightarrow> (Some e, w0)
            | Inr files \<Rightarrow>
                (case findDailyNote targetDate files of
                   None \<Rightarrow>
                     (None, if \<not> quiet then emit (Notice (DailyNoteNotFound targetDate)) w0
                            else w0)
                 | Some dailyNote \<Rightarrow>
                     (case tryBlockWith k quiet targetDate dailyNote (w0\<lparr>isUpdating := True\<rparr>) of
                        (None, w2) \<Rightarrow> (None, w2\<lparr>isUpdating := False\<rparr>)
                      | (Some e, w2) \<Rightarrow> (None, (catchBlock quiet e w2)\<lparr>isUpdating := False\<rparr>)))))"

definition updateDailyNote :: "bool \<Rightarrow> string option \<Rightarrow> world \<Rightarrow> error option \<times> world" where
  "updateDailyNote quiet specificDate w = updateDailyNoteWith noFaults quiet specificDate w"

section \<open>getDailyNoteDate\<close>

definition isDigit :: "char \<Rightarrow> bool" where
  "isDigit c = (c \<in> set ''0123456789'')"

text \<open>Whether \<open>\d{4}-\d{2}-\d{2}\<close> matches at the very start of the text.\<close>

definition dateAt :: "string \<Rightarrow> bool" where
  "dateAt s =
     (10 \<le> length s \<and> list_all isDigit (take 4 s) \<and> s ! 4 = CHR ''-''
      \<and> list_all isDigit (take 2 (drop 5 s)) \<and> s ! 7 = CHR ''-''
      \<and> list_all isDigit (take 2 (drop 8 s)))"

text \<open>The first match of the pattern in the text, scanning start positions from the left.\<close>

fun firstDate :: "string \<Rightarrow> string option" where
  "firstDate [] = None"
| "firstDate (c # cs) = (if dateAt (c # cs) then Some (take 10 (c # cs)) else firstDate cs)"

section \<open>handleFileModify\<close>

text \<open>
  What the manager reads of a parsed \<open>Todo\<close>: its \<open>body\<close> and \<open>isChecked()\<close>.
\<close>

record todo =
  body :: string
  checked :: bool

text \<open>
  The collaborators that are declared outside this module and given to the manager:
  \<open>parseTodo line\<close> is \<open>Todo.parse(0, line)\<close>; \<open>momentIsValid text\<close> is
  \<open>moment(text, "YYYY-MM-DD").isValid()\<close>; \<open>updateReminder\<close> is the callback of the
  constructor. The callback receives the reminder object itself, so it may change the
  objects of the array \<open>todosOfDate\<close> that the loop holds: it is given that array and
  returns what was thrown (if anything), the array's objects after the call and the state
  after the call.
\<close>

record collab =
  parseTodo :: "string \<Rightarrow> todo option"
  momentIsValid :: "string \<Rightarrow> bool"
  updateReminder ::
    "reminder \<Rightarrow> bool \<Rightarrow> reminder list \<Rightarrow> world \<Rightarrow> error option \<times> reminder list \<times> world"

text \<open>
  A valid date formats back to the text it was parsed from, so the date of the file is
  the matched text.
\<close>

definition getDailyNoteDate :: "collab \<Rightarrow> tfile \<Rightarrow> string option" where
  "getDailyNoteDate c file =
     (case firstDate (name file) of
        None \<Rightarrow> None
      | Some dateStr \<Rightarrow> if momentIsValid c dateStr then Some dateStr else None)"

text \<open>
  \<open>split("\n")\<close> and \<open>trim()\<close>. Of the characters \<open>trim\<close> strips, those in the range
  of \<^typ>\<open>char\<close> are tab, line feed, vertical tab, form feed, carriage return, space and
  no-break space.
\<close>

fun split_nl :: "string \<Rightarrow> string list" where
  "split_nl [] = [[]]"
| "split_nl (c # cs) =
     (if c = CHR 0x0A then [] # split_nl cs
      else (case split_nl cs of
              [] \<Rightarrow> [[c]]
            | l # ls \<Rightarrow> (c # l) # ls))"

definition isWhiteSpace :: "char \<Rightarrow> bool" where
  "isWhiteSpace c =
     (c \<in> set [CHR 0x09, CHR 0x0A, CHR 0x0B, CHR 0x0C, CHR 0x0D, CHR 0x20, CHR 0xA0])"

definition trim :: "string \<Rightarrow> string" where
  "trim s = rev (dropWhile isWhiteSpace (rev (dropWhile isWhiteSpace s)))"

text \<open>
  \<open>body.match(/<!-- reminder-key: (.*?) -->/)\<close>: the first start position at which the
  opening text stands and is followed, after the fewest characters that are not line
  terminators, by the closing text; the result is that run of characters. \<open>None\<close> is
  \<open>null\<close>.
\<close>

definition isLineTerminator :: "char \<Rightarrow> bool" where
  "isLineTerminator c = (c = CHR 0x0A \<or> c = CHR 0x0D)"

fun lazyKey :: "string \<Rightarrow> string option" where
  "lazyKey [] = None"
| "lazyKey (c # cs) =
     (if prefix '' -->'' (c # cs) then Some []
      else if isLineTerminator c then None
      else map_option ((#) c) (lazyKey cs))"

fun keyMatch :: "string \<Rightarrow> string option" where
  "keyMatch [] = None"
| "keyMatch (c # cs) =
     (if prefix ''<!-- reminder-key: '' (c # cs) then
        (case lazyKey (drop 19 (c # cs)) of
           Some k \<Rightarrow> Some k
         | None \<Rightarrow> keyMatch cs)
      else keyMatch cs)"

text \<open>
  The callback of \<open>todosOfDate.find\<close> (lines 161 to 166). \<open>if (key)\<close> holds for a
  string that is neither \<open>null\<close> nor empty.
\<close>

definition matchesTodo :: "todo \<Rightarrow> reminder \<Rightarrow> bool" where
  "matchesTodo t r =
     (case keyMatch (body t) of
        None \<Rightarrow> prefix (title r) (body t)
      | Some k \<Rightarrow> if k \<noteq> [] then rkey r = k else prefix (title r) (body t))"

text \<open>
  The body of the loop up to its decision (lines 156 to 170): the reminder to update and
  the state to give it, or \<open>None\<close> when the line calls for no update.
\<close>

definition lineUpdate :: "collab \<Rightarrow> reminder list \<Rightarrow> string \<Rightarrow> (reminder \<times> bool) option" where
  "lineUpdate c todosOfDate line =
     (case parseTodo c (trim line) of
        None \<Rightarrow> None
      | Some t \<Rightarrow>
          (case find (matchesTodo t) todosOfDate of
             None \<Rightarrow> None
           | Some matchingReminder \<Rightarrow>
               (let isChecked = checked t
                in if rdone matchingReminder \<noteq> isChecked
                   then Some (matchingReminder, isChecked) else None)))"

text \<open>
  The loop of lines 155 to 177 with its flag \<open>changed\<close>. An exception of the callback
  leaves the loop at once. \<open>handleFileModify\<close> calls \<open>byDate\<close> (line 152) and
  \<open>key()\<close> (line 163) outside any \<open>try\<close>; it is modelled for the case in which
  they return, and so is the render it invokes at its end.
\<close>

fun syncLines ::
  "collab \<Rightarrow> string list \<Rightarrow> reminder list \<Rightarrow> bool \<Rightarrow> world \<Rightarrow> error option \<times> bool \<times> world" where
  "syncLines c [] todosOfDate changed w = (None, changed, w)"
| "syncLines c (line # rest) todosOfDate changed w =
     (case lineUpdate c todosOfDate line of
        None \<Rightarrow> syncLines c rest todosOfDate changed w
      | Some (matchingReminder, isChecked) \<Rightarrow>
          (case updateReminder c matchingReminder isChecked todosOfDate
                  (emit (UpdateReminder matchingReminder isChecked) w) of
             (Some e, todos', w') \<Rightarrow> (Some e, changed, w')
           | (None, todos', w') \<Rightarrow> syncLines c rest todos' True w'))"

definition handleFileModify :: "collab \<Rightarrow> tfile \<Rightarrow> world \<Rightarrow> error option \<times> world" where
  "handleFileModify c file w =
     (if isUpdating w then (None, w)
      else if \<not> autoEmbedTodosInDailyNote w then (None, w)
      else
        (case getDailyNoteDate c file of
           None \<Rightarrow> (None, w)
         | Some fileDate \<Rightarrow>
             (let w1 = emit (VaultRead (path file)) w
              in case vaultRead file w1 of
                   Inl e \<Rightarrow> (Some e, w1)
                 | Inr contentString \<Rightarrow>
                     (let marker = dailyNoteSectionMarker w1;
                          startIndex = indexOf contentString (startMarker marker);
                          endIndex = indexOf contentString (endMarker marker)
                      in if startIndex = - 1 then (None, w1)
                         else if endIndex = - 1 then (None, w1)
                         else
                           (let sectionContent =
                                  substring contentString
                                    (startIndex + int (length (startMarker marker))) endIndex;
                                lines = split_nl sectionContent;
                                todosOfDate = byDate w1 fileDate
                            in case syncLines c lines todosOfDate False w1 of
                                 (Some e, changed, w2) \<Rightarrow> (Some e, w2)
                               | (None, changed, w2) \<Rightarrow>
                                   if \<not> changed then updateDailyNote True (Some fileDate) w2
                                   else (None, w2))))))"

section \<open>Collaborators modelled from the spec, and values used in the examples\<close>

text \<open>
  Modelled from the spec: \<open>Todo.parse\<close> and \<open>Todo.isChecked\<close>, declared outside this
  module. A checklist line is \<open>- [ ]\<close> or \<open>- [x]\<close> (the mark in either case) and a
  blank, then the body; any other line is no checklist line.
\<close>

definition parseChecklist :: "string \<Rightarrow> todo option" where
  "parseChecklist s =
     (if prefix ''- [ ] '' s then Some \<lparr>body = drop 6 s, checked = False\<rparr>
      else if prefix ''- [x] '' s then Some \<lparr>body = drop 6 s, checked = True\<rparr>
      else if prefix ''- [X] '' s then Some \<lparr>body = drop 6 s, checked = True\<rparr>
      else None)"

text \<open>
  Modelled from the documented behaviour of \<open>moment\<close>: a date text is valid when its
  month is 1 to 12 and its day exists in that month of that year.
\<close>

definition twoDigits :: "string \<Rightarrow> nat" where
  "twoDigits s = 10 * (of_char (s ! 0) - 48) + (of_char (s ! 1) - 48)"

definition calendarValid :: "string \<Rightarrow> bool" where
  "calendarValid s =
     (let y = 100 * twoDigits (take 2 s) + twoDigits (take 2 (drop 2 s));
          mo = twoDigits (take 2 (drop 5 s));
          d = twoDigits (take 2 (drop 8 s));
          leap = ((y mod 4 = 0 \<and> y mod 100 \<noteq> 0) \<or> y mod 400 = 0);
          days = (if mo = 2 then (if leap then 29 else 28)
                  else if mo \<in> set [4, 6, 9, 11] then 30 else 31)
      in 1 \<le> mo \<and> mo \<le> 12 \<and> 1 \<le> d \<and> d \<le> days)"

text \<open>
  Modelled from the spec: the reminder update sink \<open>updateReminderDone(Reminder, checked)\<close>
  sets \<open>done\<close> of the given reminder, here in the objects the loop holds and in the
  collection.
\<close>

definition markDone :: "reminder \<Rightarrow> bool \<Rightarrow> reminder \<Rightarrow> reminder" where
  "markDone r b x = (if rkey x = rkey r then x\<lparr>rdone := b\<rparr> else x)"

definition setDone ::
  "reminder \<Rightarrow> bool \<Rightarrow> reminder list \<Rightarrow> world \<Rightarrow> error option \<times> reminder list \<times> world" where
  "setDone r b todos w =
     (None, map (markDone r b) todos,
      w\<lparr>byDate := (\<lambda>d. map (markDone r b) (byDate w d))\<rparr>)"

definition plugin :: collab where
  "plugin = \<lparr>parseTodo = parseChecklist, momentIsValid = calendarValid, updateReminder = setDone\<rparr>"

definition exactNote :: tfile where
  "exactNote = \<lparr>name = ''2024-01-05.md'', basename = ''2024-01-05'',
                 path = ''2024-01-05.md'', mtime = 100\<rparr>"

definition backupNote :: tfile where
  "backupNote = \<lparr>name = ''old-2024-01-05-backup.md'', basename = ''old-2024-01-05-backup'',
                  path = ''old-2024-01-05-backup.md'', mtime = 200\<rparr>"

definition archiveNote :: tfile where
  "archiveNote = \<lparr>name = ''2024-01-05.md'', basename = ''2024-01-05'',
                   path = ''archive/2024-01-05.md'', mtime = 100\<rparr>"

definition buyMilk :: reminder where
  "buyMilk = \<lparr>title = ''Buy milk'', rdone = False, rfile = ''groceries.md'', rkey = ''abc123''\<rparr>"

definition dailyText :: string where
  "dailyText = ''# Friday'' @ newline @ ''<!-- start of todos -->'' @ newline @ ''stale''
     @ newline @ ''<!-- end of todos -->'' @ newline @ ''tail''"

definition reversedText :: string where
  "reversedText = ''<!-- end of todos -->'' @ newline @ ''notes'' @ newline
     @ ''<!-- start of todos -->''"

text \<open>
  A daily note with a stale section, the same note after a render of \<open>buyMilk\<close>, the
  rendered note with its box ticked by hand, a section whose two lines contradict each
  other, and a note without markers.
\<close>

definition renderedText :: string where
  "renderedText = ''# Friday'' @ newline @ ''<!-- start of todos -->'' @ newline
     @ ''- [ ] Buy milk [[groceries.md|source]] <!-- reminder-key: abc123 -->''
     @ newline @ ''<!-- end of todos -->'' @ newline @ ''tail''"

definition checkedText :: string where
  "checkedText = ''# Friday'' @ newline @ ''<!-- start of todos -->'' @ newline
     @ ''- [x] Buy milk [[groceries.md|source]] <!-- reminder-key: abc123 -->''
     @ newline @ ''<!-- end of todos -->'' @ newline @ ''tail''"

definition conflictText :: string where
  "conflictText = ''<!-- start of todos -->'' @ newline
     @ ''- [x] Buy milk <!-- reminder-key: abc123 -->'' @ newline
     @ ''- [ ] Buy milk <!-- reminder-key: abc123 -->'' @ newline
     @ ''<!-- end of todos -->''"

definition plainText :: string where
  "plainText = ''# Friday'' @ newline @ ''nothing to embed here''"

text \<open>
  A vault whose daily note \<open>2024-01-05.md\<close> holds the given text, next to a newer
  backup file whose name only contains the date.
\<close>

definition vault :: "string \<Rightarrow> world" where
  "vault text =
     \<lparr>isUpdating = False, autoEmbedTodosInDailyNote = True,
      dailyNoteSectionMarker = ''todos'', today = ''2024-01-05'',
      markdownFiles = Inr [backupNote, exactNote],
      contents = [(''2024-01-05.md'', text)], readOnly = [],
      byDate = (\<lambda>d. if d = ''2024-01-05'' then [buyMilk] else []),
      trace = []\<rparr>"

text \<open>
  Faults for the examples: every \<open>key()\<close> throws, and \<open>byDate\<close> throws.
\<close>

definition brokenKeys :: faults where
  "brokenKeys = \<lparr>byDateFault = None, keyFault = (\<lambda>r. Some (KeyError (rkey r)))\<rparr>"

definition brokenCollection :: faults where
  "brokenCollection = \<lparr>byDateFault = Some ByDateError, keyFault = (\<lambda>r. None)\<rparr>"

section \<open>Notions used to state what a re-run of the reconciliation does\<close>

text \<open>Whether an event is a call of the injected \<open>updateReminder\<close>.\<close>

fun isSinkCall :: "event \<Rightarrow> bool" where
  "isSinkCall (UpdateReminder r b) = True"
| "isSinkCall _ = False"

text \<open>
  The reminder a line addresses and the state the line gives it, whatever the reminder's
  own state: \<open>None\<close> for a line that is no checklist line or that matches no reminder.
\<close>

definition lineTarget :: "collab \<Rightarrow> reminder list \<Rightarrow> string \<Rightarrow> (reminder \<times> bool) option" where
  "lineTarget c todosOfDate line =
     (case parseTodo c (trim line) of
        None \<Rightarrow> None
      | Some t \<Rightarrow> map_option (\<lambda>r. (r, checked t)) (find (matchesTodo t) todosOfDate))"

text \<open>
  Two lines agree unless they give different states to reminders of one key; the lines of
  a section are consistent when every two of them agree.
\<close>

definition linesAgree :: "(reminder \<times> bool) option \<Rightarrow> (reminder \<times> bool) option \<Rightarrow> bool" where
  "linesAgree x y =
     (case x of
        None \<Rightarrow> True
      | Some (r1, b1) \<Rightarrow>
          (case y of
             None \<Rightarrow> True
           | Some (r2, b2) \<Rightarrow> (if rkey r1 = rkey r2 then b1 = b2 else True)))"

definition consistentLines :: "collab \<Rightarrow> reminder list \<Rightarrow> string list \<Rightarrow> bool" where
  "consistentLines c todosOfDate ls =
     list_all (\<lambda>l1. list_all (\<lambda>l2. linesAgree (lineTarget c todosOfDate l1)
                                              (lineTarget c todosOfDate l2)) ls) ls"

text \<open>
  With the sink \<open>setDone\<close>: the calls the loop makes, line by line, each line judged
  against the reminders as the calls before it left them; and the reminders after a list
  of calls.
\<close>

fun applyMarks :: "(reminder \<times> bool) list \<Rightarrow> reminder list \<Rightarrow> reminder list" where
  "applyMarks [] todos = todos"
| "applyMarks ((r, b) # cs) todos = applyMarks cs (map (markDone r b) todos)"

fun sinkCalls :: "collab \<Rightarrow> string list \<Rightarrow> reminder list \<Rightarrow> (reminder \<times> bool) list" where
  "sinkCalls c [] todos = []"
| "sinkCalls c (line # rest) todos =
     (case lineUpdate c todos line of
        None \<Rightarrow> sinkCalls c rest todos
      | Some (r, b) \<Rightarrow> (r, b) # sinkCalls c rest (map (markDone r b) todos))"

section \<open>Facts about indexOf\<close>

lemma indexOf_range: "- 1 \<le> indexOf xs p \<and> indexOf xs p \<le> int (length xs)"
  by (induction xs) (auto simp: Let_def)

lemma indexOf_found:
  "indexOf xs p = int i \<Longrightarrow> prefix p (drop i xs) \<and> i \<le> length xs"
proof (induction xs arbitrary: i)
  case Nil
  then show ?case by (auto split: if_splits)
next
  case (Cons c cs)
  show ?case
  proof (cases "prefix p (c # cs)")
    case True
    with Cons.prems show ?thesis by simp
  next
    case False
    with Cons.prems have ne: "indexOf cs p \<noteq> - 1" and eq: "indexOf cs p + 1 = int i"
      by (auto simp: Let_def split: if_splits)
    from indexOf_range[of cs p] ne have "0 \<le> indexOf cs p" by linarith
    with eq obtain k where k: "i = Suc k" "indexOf cs p = int k"
      by (cases i) auto
    from Cons.IH[OF k(2)] k(1) show ?thesis by simp
  qed
qed

lemma indexOf_first:
  "indexOf xs p = int i \<Longrightarrow> j < i \<Longrightarrow> \<not> prefix p (drop j xs)"
proof (induction xs arbitrary: i j)
  case Nil
  then show ?case by (auto split: if_splits)
next
  case (Cons c cs)
  show ?case
  proof (cases "prefix p (c # cs)")
    case True
    with Cons.prems show ?thesis by simp
  next
    case False
    with Cons.prems have ne: "indexOf cs p \<noteq> - 1" and eq: "indexOf cs p + 1 = int i"
      by (auto simp: Let_def split: if_splits)
    from indexOf_range[of cs p] ne have "0 \<le> indexOf cs p" by linarith
    with eq obtain k where k: "i = Suc k" "indexOf cs p = int k"
      by (cases i) auto
    show ?thesis
    proof (cases j)
      case 0
      with False show ?thesis by simp
    next
      case (Suc j')
      with Cons.prems(2) k(1) have "j' < k" by simp
      from Cons.IH[OF k(2) this] Suc show ?thesis by simp
    qed
  qed
qed

lemma indexOf_none:
  "indexOf xs p = - 1 \<Longrightarrow> j \<le> length xs \<Longrightarrow> \<not> prefix p (drop j xs)"
proof (induction xs arbitrary: j)
  case Nil
  then show ?case by (auto split: if_splits)
next
  case (Cons c cs)
  from Cons.prems(1) indexOf_range[of cs p]
  have np: "\<not> prefix p (c # cs)" and r: "indexOf cs p = - 1"
    by (auto simp: Let_def split: if_splits)
  show ?case
  proof (cases j)
    case 0
    with np show ?thesis by simp
  next
    case (Suc j')
    with Cons.prems(2) have "j' \<le> length cs" by simp
    from Cons.IH[OF r this] Suc show ?thesis by simp
  qed
qed

lemma indexOf_eqI:
  assumes "prefix p (drop i xs)" and "i \<le> length xs"
    and "\<And>j. j < i \<Longrightarrow> \<not> prefix p (drop j xs)"
  shows "indexOf xs p = int i"
proof -
  from indexOf_none[of xs p i] assms(1,2) have "indexOf xs p \<noteq> - 1" by blast
  with indexOf_range[of xs p] have "0 \<le> indexOf xs p" by linarith
  then obtain k where k: "indexOf xs p = int k" using nonneg_int_cases by blast
  from indexOf_found[OF k] have pk: "prefix p (drop k xs)" by simp
  from indexOf_first[OF k, of i] assms(1) have "\<not> i < k" by blast
  moreover from assms(3)[of k] pk have "\<not> k < i" by blast
  ultimately show ?thesis using k by simp
qed

lemma prefix_drop_take:
  "prefix p (drop i xs) \<longleftrightarrow> drop i (take (i + length p) xs) = p"
proof -
  have "prefix p (drop i xs) \<longleftrightarrow> take (length p) (drop i xs) = p"
    by (metis append_eq_conv_conj prefix_def append_take_drop_id)
  also have "take (length p) (drop i xs) = drop i (take (i + length p) xs)"
    by (simp add: drop_take add.commute)
  finally show ?thesis .
qed

lemma prefix_drop_agree:
  "take (i + length p) xs = take (i + length p) ys \<Longrightarrow>
   prefix p (drop i xs) \<longleftrightarrow> prefix p (drop i ys)"
  by (simp add: prefix_drop_take)

lemma prefix_drop_agree_le:
  assumes "take n xs = take n ys" and "i + length p \<le> n"
  shows "prefix p (drop i xs) \<longleftrightarrow> prefix p (drop i ys)"
proof -
  have "take (i + length p) (take n xs) = take (i + length p) (take n ys)"
    using assms(1) by simp
  with assms(2) have "take (i + length p) xs = take (i + length p) ys"
    by (simp add: min_def)
  then show ?thesis by (rule prefix_drop_agree)
qed

lemma prefix_take: "prefix p xs \<Longrightarrow> length p \<le> k \<Longrightarrow> prefix p (take k xs)"
  by (auto simp: prefix_def)

lemma substring0: "i \<le> length s \<Longrightarrow> substring s 0 (int i) = take i s"
  by (simp add: substring_def clampIndex_def Let_def)

lemma substringFrom_drop: "substringFrom s (int i) = drop i s"
  by (auto simp: substringFrom_def clampIndex_def)

lemma found_split:
  assumes "indexOf xs p = int i"
  shows "xs = take i xs @ p @ drop (i + length p) xs"
proof -
  from indexOf_found[OF assms] obtain r where r: "drop i xs = p @ r"
    by (auto simp: prefix_def)
  then have "drop (length p) (drop i xs) = r" by simp
  then have "drop (i + length p) xs = r" by (simp add: add.commute)
  with r show ?thesis by (metis append_take_drop_id)
qed

section \<open>Facts about the markers and the section rewrite\<close>

lemma length_startMarker: "length (startMarker m) = length m + 18"
  by (simp add: startMarker_def)

lemma length_endMarker: "length (endMarker m) = length m + 16"
  by (simp add: endMarker_def)

lemma startMarker_head: "\<exists>r. startMarker m = CHR ''<'' # CHR ''!'' # r"
  by (simp add: startMarker_def)

lemma endMarker_head: "\<exists>r. endMarker m = CHR ''<'' # r"
  by (simp add: endMarker_def)

lemma markers_not_adjacent:
  assumes s: "indexOf content (startMarker m) = int s"
    and e: "indexOf content (endMarker m) = int e"
  shows "e \<noteq> Suc s"
proof
  assume adj: "e = Suc s"
  from indexOf_found[OF s] obtain r where r: "drop s content = startMarker m @ r"
    by (auto simp: prefix_def)
  from startMarker_head obtain t where t: "startMarker m = CHR ''<'' # CHR ''!'' # t" by blast
  have "drop (Suc s) content = tl (drop s content)" by (simp add: drop_Suc drop_tl)
  with r t have d: "drop (Suc s) content = CHR ''!'' # t @ r" by simp
  from indexOf_found[OF e] adj have "prefix (endMarker m) (drop (Suc s) content)" by simp
  with d endMarker_head[of m] show False by auto
qed

lemma updateReminderSection_found:
  assumes s: "indexOf content (startMarker m) = int s"
    and e: "indexOf content (endMarker m) = int e"
  shows "updateReminderSection m content rs =
     Some (take s content @ newSection m rs @ drop (e + length (endMarker m)) content)"
proof -
  from indexOf_found[OF s] have sl: "s \<le> length content" by simp
  have "int e + int (length (endMarker m)) = int (e + length (endMarker m))" by simp
  then show ?thesis
    unfolding updateReminderSection_def Let_def s e
    by (simp only: substring0[OF sl] substringFrom_drop) simp
qed

lemma absent_none:
  "indexOf content (startMarker m) = - 1 \<or> indexOf content (endMarker m) = - 1 \<Longrightarrow>
   updateReminderSection m content rs = None"
  by (auto simp: updateReminderSection_def Let_def)

lemma newSection_prefix: "prefix (startMarker m) (newSection m rs)"
  by (simp add: newSection_def)

lemma length_newSection: "length (newSection m rs) = length (startMarker m) + 1 + length (reminderLines rs) + 1 + length (endMarker m)"
  by (simp add: newSection_def)

text \<open>
  When the label holds no \<open><\<close>, an end marker that starts before the start marker
  also ends before it: the two occurrences cannot overlap.
\<close>

lemma markers_disjoint:
  assumes e: "indexOf content (endMarker m) = int e"
    and s: "indexOf content (startMarker m) = int s"
    and lt: "e < s" and m: "CHR ''<'' \<notin> set m"
  shows "e + length (endMarker m) \<le> s"
proof (rule ccontr)
  assume "\<not> e + length (endMarker m) \<le> s"
  then have k: "s - e < length (endMarker m)" using lt by simp
  from indexOf_found[OF e] obtain r where r: "drop e content = endMarker m @ r"
    by (auto simp: prefix_def)
  from indexOf_found[OF s] obtain t where t: "drop s content = startMarker m @ t"
    by (auto simp: prefix_def)
  have hs: "hd (drop s content) = CHR ''<''"
    using t startMarker_head[of m] by auto
  have "drop s content = drop (s - e) (drop e content)" using lt by simp
  also have "\<dots> = drop (s - e) (endMarker m) @ r" using r k by simp
  finally have "hd (drop (s - e) (endMarker m) @ r) = CHR ''<''"
    using hs by simp
  moreover from k have "drop (s - e) (endMarker m) \<noteq> []" by simp
  ultimately have "hd (drop (s - e) (endMarker m)) = CHR ''<''" by simp
  moreover have "hd (drop (s - e) (endMarker m)) \<in> set (drop (s - e) (endMarker m))"
    using \<open>drop (s - e) (endMarker m) \<noteq> []\<close> by (rule hd_in_set)
  moreover have "set (drop (s - e) (endMarker m)) \<subseteq> set (tl (endMarker m))"
  proof -
    from lt obtain j where j: "s - e = Suc j" by (cases "s - e") auto
    have "drop (Suc j) (endMarker m) = drop j (tl (endMarker m))" by (simp add: drop_Suc)
    then show ?thesis using j set_drop_subset[of j "tl (endMarker m)"] by simp
  qed
  moreover have "CHR ''<'' \<notin> set (tl (endMarker m))"
    using m by (simp add: endMarker_def)
  ultimately show False by auto
qed

text \<open>The text around two markers in reverse order, and what the rewrite makes of it.\<close>

lemma reversed_split:
  assumes e: "indexOf content (endMarker m) = int e"
    and s: "indexOf content (startMarker m) = int s"
    and le: "e + length (endMarker m) \<le> s"
  shows "content = take e content @ endMarker m
             @ take (s - (e + length (endMarker m))) (drop (e + length (endMarker m)) content)
             @ startMarker m @ drop (s + length (startMarker m)) content
         \<and> updateReminderSection m content rs =
             Some (take e content @ endMarker m
               @ take (s - (e + length (endMarker m))) (drop (e + length (endMarker m)) content)
               @ newSection m rs
               @ take (s - (e + length (endMarker m))) (drop (e + length (endMarker m)) content)
               @ startMarker m @ drop (s + length (startMarker m)) content)"
proof -
  let ?A = "take e content" and ?D = "drop (e + length (endMarker m)) content"
  let ?k = "s - (e + length (endMarker m))"
  let ?C = "drop (s + length (startMarker m)) content"
  from indexOf_found[OF e] have la: "length ?A = e" by simp
  have c1: "content = ?A @ endMarker m @ ?D" by (rule found_split[OF e])
  have sk: "s = e + length (endMarker m) + ?k" using le by simp
  have "drop ?k ?D = drop s content" using le by simp
  also have "\<dots> = startMarker m @ ?C"
    using found_split[OF s] by (metis append_eq_conv_conj append_take_drop_id)
  finally have dk: "drop ?k ?D = startMarker m @ ?C" .
  have D: "?D = take ?k ?D @ startMarker m @ ?C"
    using dk by (metis append_take_drop_id)
  have "take s (?A @ endMarker m @ ?D) = ?A @ endMarker m @ take ?k ?D"
    using la sk by simp
  with c1 have ts: "take s content = ?A @ endMarker m @ take ?k ?D" by simp
  have dec: "content = ?A @ endMarker m @ take ?k ?D @ startMarker m @ ?C"
    using c1 D by simp
  have "updateReminderSection m content rs = Some (take s content @ newSection m rs @ ?D)"
    by (rule updateReminderSection_found[OF s e])
  also have "take s content @ newSection m rs @ ?D
      = ?A @ endMarker m @ take ?k ?D @ newSection m rs @ take ?k ?D @ startMarker m @ ?C"
    using ts D by simp
  finally show ?thesis using dec by blast
qed

text \<open>The first start marker of the rewritten text is where it was.\<close>

lemma indexOf_start_rewritten:
  assumes s: "indexOf content (startMarker m) = int s"
  shows "indexOf (take s content @ newSection m rs @ post) (startMarker m) = int s"
proof (rule indexOf_eqI)
  let ?r = "take s content @ newSection m rs @ post"
  from indexOf_found[OF s] have sl: "s \<le> length content" by simp
  then have ls: "length (take s content) = s" by simp
  then have dr: "drop s ?r = newSection m rs @ post" by simp
  show "prefix (startMarker m) (drop s ?r)"
    unfolding dr using newSection_prefix[of m rs] by (auto simp: prefix_def)
  show "s \<le> length ?r" using ls by simp
  fix j assume j: "j < s"
  from found_split[OF s] obtain c where c: "content = take s content @ startMarker m @ c"
    by blast
  from newSection_prefix[of m rs] obtain t where t: "newSection m rs = startMarker m @ t"
    by (auto simp: prefix_def)
  have a1: "take (s + length (startMarker m)) ?r = take s content @ startMarker m"
    using ls by (simp add: t)
  have "take (s + length (startMarker m)) (take s content @ startMarker m @ c)
        = take s content @ startMarker m"
    using ls by simp
  with c have a2: "take (s + length (startMarker m)) content = take s content @ startMarker m"
    by simp
  have "prefix (startMarker m) (drop j ?r) \<longleftrightarrow> prefix (startMarker m) (drop j content)"
    by (rule prefix_drop_agree_le[where n = "s + length (startMarker m)"])
       (use a1 a2 j in simp_all)
  with indexOf_first[OF s j] show "\<not> prefix (startMarker m) (drop j ?r)" by simp
qed

text \<open>The first end marker of the rewritten text is the one that closes the new section.\<close>

lemma indexOf_end_rewritten:
  assumes s: "indexOf content (startMarker m) = int s"
    and e: "indexOf content (endMarker m) = int e"
    and lt: "s < e"
    and inner: "indexOf (newSection m rs) (endMarker m)
                  = int (length (newSection m rs) - length (endMarker m))"
  shows "indexOf (take s content @ newSection m rs @ post) (endMarker m)
           = int (s + (length (newSection m rs) - length (endMarker m)))"
proof (rule indexOf_eqI)
  let ?r = "take s content @ newSection m rs @ post"
  let ?N = "newSection m rs"
  let ?q = "length ?N - length (endMarker m)"
  from indexOf_found[OF s] have sl: "s \<le> length content" by simp
  then have ls: "length (take s content) = s" by simp
  have lq: "?q + length (endMarker m) = length ?N"
    by (simp add: length_newSection)
  obtain a where a: "?N = a @ endMarker m"
    unfolding newSection_def by (metis append.assoc)
  then have la: "?q = length a" by simp
  have "drop (s + length a) (take s content @ (a @ endMarker m) @ post) = endMarker m @ post"
    using ls by simp
  then have dq: "drop (s + ?q) ?r = endMarker m @ post"
    unfolding a by simp
  show "prefix (endMarker m) (drop (s + ?q) ?r)" unfolding dq by simp
  show "s + ?q \<le> length ?r" using ls by simp
  fix j assume j: "j < s + ?q"
  show "\<not> prefix (endMarker m) (drop j ?r)"
  proof (cases "j < s")
    case True
    from found_split[OF s] obtain c where c: "content = take s content @ startMarker m @ c"
      by blast
    from newSection_prefix[of m rs] obtain t where t: "?N = startMarker m @ t"
      by (auto simp: prefix_def)
    have a1: "take (s + length (startMarker m)) ?r = take s content @ startMarker m"
      using ls by (simp add: t)
    have "take (s + length (startMarker m)) (take s content @ startMarker m @ c)
          = take s content @ startMarker m"
      using ls by simp
    with c have a2: "take (s + length (startMarker m)) content = take s content @ startMarker m"
      by simp
    have "prefix (endMarker m) (drop j ?r) \<longleftrightarrow> prefix (endMarker m) (drop j content)"
      by (rule prefix_drop_agree_le[where n = "s + length (startMarker m)"])
         (use a1 a2 True in \<open>simp_all add: length_startMarker length_endMarker\<close>)
    moreover from True lt have "j < e" by simp
    ultimately show ?thesis using indexOf_first[OF e] by simp
  next
    case False
    define i where "i = j - s"
    from False j have i: "j = s + i" "i < ?q" unfolding i_def by simp_all
    have dj: "drop j ?r = drop i (?N @ post)" using ls i by simp
    have "take (i + length (endMarker m)) (?N @ post) = take (i + length (endMarker m)) ?N"
      using i(2) lq by simp
    then have "prefix (endMarker m) (drop i (?N @ post)) \<longleftrightarrow> prefix (endMarker m) (drop i ?N)"
      by (rule prefix_drop_agree)
    with indexOf_first[OF inner i(2)] dj show ?thesis by simp
  qed
qed

lemma rewrite_idempotent:
  assumes s: "indexOf content (startMarker m) = int s"
    and e: "indexOf content (endMarker m) = int e"
    and lt: "s < e"
    and inner: "indexOf (newSection m rs) (endMarker m)
                  = int (length (newSection m rs) - length (endMarker m))"
    and r: "updateReminderSection m content rs = Some r"
  shows "updateReminderSection m r rs = Some r"
proof -
  let ?post = "drop (e + length (endMarker m)) content"
  let ?N = "newSection m rs"
  let ?q = "length ?N - length (endMarker m)"
  from r updateReminderSection_found[OF s e]
  have req: "r = take s content @ ?N @ ?post" by simp
  from indexOf_found[OF s] have ls: "length (take s content) = s" by simp
  have lq: "?q + length (endMarker m) = length ?N"
    by (simp add: length_newSection)
  have s': "indexOf r (startMarker m) = int s"
    unfolding req by (rule indexOf_start_rewritten[OF s])
  have e': "indexOf r (endMarker m) = int (s + ?q)"
    unfolding req by (rule indexOf_end_rewritten[OF s e lt inner])
  have t: "take s r = take s content" unfolding req using ls by simp
  have "s + ?q + length (endMarker m) = s + length ?N" using lq by simp
  moreover have "drop (s + length ?N) (take s content @ ?N @ ?post) = ?post"
    using ls by simp
  ultimately have d: "drop (s + ?q + length (endMarker m)) r = ?post"
    unfolding req by simp
  have "updateReminderSection m r rs = Some (take s content @ ?N @ ?post)"
    using updateReminderSection_found[OF s' e', of rs] unfolding t d .
  then show ?thesis unfolding req .
qed

section \<open>Facts about findDailyNote\<close>

lemma Max_snoc:
  "ys \<noteq> [] \<Longrightarrow> Max (mtime ` set (ys @ [x])) = max (mtime x) (Max (mtime ` set ys))"
proof -
  assume "ys \<noteq> []"
  then have ne: "mtime ` set ys \<noteq> {}" by simp
  have fin: "finite (mtime ` set ys)" by simp
  have "mtime ` set (ys @ [x]) = insert (mtime x) (mtime ` set ys)" by simp
  then show ?thesis using Max_insert[OF fin ne, of "mtime x"] by simp
qed

lemma reduce_newer:
  "ys \<noteq> [] \<Longrightarrow>
   foldl newer (hd ys) (tl ys) = last (filter (\<lambda>g. mtime g = Max (mtime ` set ys)) ys)
   \<and> mtime (foldl newer (hd ys) (tl ys)) = Max (mtime ` set ys)"
proof (induction ys rule: rev_induct)
  case Nil
  then show ?case by simp
next
  case (snoc x ys)
  show ?case
  proof (cases "ys = []")
    case True
    then show ?thesis by simp
  next
    case False
    let ?M = "Max (mtime ` set ys)"
    let ?acc = "foldl newer (hd ys) (tl ys)"
    from snoc.IH[OF False] have acc: "?acc = last (filter (\<lambda>g. mtime g = ?M) ys)"
      and macc: "mtime ?acc = ?M" by blast+
    have step: "foldl newer (hd (ys @ [x])) (tl (ys @ [x])) = newer ?acc x"
      using False by simp
    have ne: "filter (\<lambda>g. mtime g = ?M) ys \<noteq> []"
    proof -
      have "?M \<in> mtime ` set ys" by (rule Max_in) (use False in simp_all)
      then obtain g where "g \<in> set ys" "mtime g = ?M" by auto
      then show ?thesis by (auto simp: filter_empty_conv)
    qed
    show ?thesis
    proof (cases "?M > mtime x")
      case True
      then have mx: "max (mtime x) ?M = ?M" by simp
      have nw: "newer ?acc x = ?acc" using True macc by (simp add: newer_def)
      have "filter (\<lambda>g. mtime g = ?M) (ys @ [x]) = filter (\<lambda>g. mtime g = ?M) ys"
        using True by simp
      then show ?thesis
        unfolding step nw Max_snoc[OF False] mx using acc macc by simp
    next
      case gt: False
      then have mx: "max (mtime x) ?M = mtime x" by simp
      have nw: "newer ?acc x = x" using gt macc by (simp add: newer_def)
      show ?thesis
        unfolding step nw Max_snoc[OF False] mx by simp
    qed
  qed
qed

lemma picked:
  assumes "matchingFiles d files = cands" and "cands \<noteq> []"
  shows "\<exists>f. findDailyNote d files = Some f \<and> f \<in> set cands"
proof -
  from assms(2) obtain f fs where c: "cands = f # fs" by (cases cands) auto
  with assms(1) have r: "findDailyNote d files = Some (foldl newer (hd cands) (tl cands))"
    by (simp add: findDailyNote_def)
  from reduce_newer[OF assms(2)]
  have "foldl newer (hd cands) (tl cands)
        = last (filter (\<lambda>g. mtime g = Max (mtime ` set cands)) cands)"
    and m: "mtime (foldl newer (hd cands) (tl cands)) = Max (mtime ` set cands)" by blast+
  moreover have "filter (\<lambda>g. mtime g = Max (mtime ` set cands)) cands \<noteq> []"
  proof -
    have "Max (mtime ` set cands) \<in> mtime ` set cands" by (rule Max_in) (use assms(2) in simp_all)
    then obtain g where "g \<in> set cands" "mtime g = Max (mtime ` set cands)" by auto
    then show ?thesis by (auto simp: filter_empty_conv)
  qed
  ultimately have "foldl newer (hd cands) (tl cands) \<in> set (filter (\<lambda>g. mtime g = Max (mtime ` set cands)) cands)"
    by (metis last_in_set)
  with r show ?thesis by auto
qed

lemma vault_target: "findDailyNote ''2024-01-05'' [backupNote, exactNote] = Some exactNote"
  by code_simp

section \<open>The paths through updateDailyNote\<close>

lemma firstFault_none: "firstFault (\<lambda>r. None) rs = None"
  by (induction rs) simp_all

lemma updateReminderSectionWith_noFaults:
  "updateReminderSectionWith noFaults m content rs = Inr (updateReminderSection m content rs)"
  by (simp add: updateReminderSectionWith_def updateReminderSection_def noFaults_def
      firstFault_none Let_def)

lemma tryBlockWith_noFaults:
  "tryBlockWith noFaults quiet targetDate dailyNote w =
     (let w1 = emit (VaultRead (path dailyNote)) w
      in case vaultRead dailyNote w1 of
           Inl e \<Rightarrow> (Some e, w1)
         | Inr content \<Rightarrow>
             (case updateReminderSection (dailyNoteSectionMarker w1) content
                     (byDate w targetDate) of
                None \<Rightarrow>
                  (None, if \<not> quiet
                         then emit (Notice (MarkerNotFound (dailyNoteSectionMarker w1))) w1
                         else w1)
              | Some newContentString \<Rightarrow>
                  if content \<noteq> newContentString then
                    (let w2 = emit (VaultModify (path dailyNote) newContentString) w1
                     in case vaultModify dailyNote newContentString w2 of
                          Inl e \<Rightarrow> (Some e, w2)
                        | Inr w3 \<Rightarrow>
                            (None, if \<not> quiet
                                   then emit (Notice (DailyNoteUpdated targetDate)) w3
                                   else w3))
                  else (None, if \<not> quiet then emit (Notice DailyNoteUpToDate) w1 else w1)))"
proof -
  have b: "byDateFault noFaults = None" by (simp add: noFaults_def)
  show ?thesis
    unfolding tryBlockWith_def b
    by (simp add: updateReminderSectionWith_noFaults Let_def split: sum.splits option.splits)
qed

lemma guard_reset: "\<not> isUpdating w \<Longrightarrow> w\<lparr>isUpdating := False\<rparr> = w"
  by (cases w) simp

lemma updateDailyNote_absent:
  assumes en: "autoEmbedTodosInDailyNote w" and nu: "\<not> isUpdating w"
    and fs: "markdownFiles w = Inr files"
    and td: "(case sd of Some d \<Rightarrow> d | None \<Rightarrow> today w) = td"
    and f: "findDailyNote td files = Some f"
    and rd: "map_of (contents w) (path f) = Some content"
    and ab: "updateReminderSection (dailyNoteSectionMarker w) content
               (byDate w td) = None"
  shows "updateDailyNote quiet sd w =
     (None, w\<lparr>trace := trace w @ [GetMarkdownFiles, VaultRead (path f)]
                 @ (if quiet then [] else [Notice (MarkerNotFound (dailyNoteSectionMarker w))])\<rparr>)"
  using assms
  by (simp add: updateDailyNote_def updateDailyNoteWith_def tryBlockWith_noFaults emit_def vaultRead_def Let_def guard_reset)

lemma updateDailyNote_unchanged:
  assumes en: "autoEmbedTodosInDailyNote w" and nu: "\<not> isUpdating w"
    and fs: "markdownFiles w = Inr files"
    and td: "(case sd of Some d \<Rightarrow> d | None \<Rightarrow> today w) = td"
    and f: "findDailyNote td files = Some f"
    and rd: "map_of (contents w) (path f) = Some content"
    and ab: "updateReminderSection (dailyNoteSectionMarker w) content
               (byDate w td) = Some content"
  shows "updateDailyNote quiet sd w =
     (None, w\<lparr>trace := trace w @ [GetMarkdownFiles, VaultRead (path f)]
                 @ (if quiet then [] else [Notice DailyNoteUpToDate])\<rparr>)"
  using assms
  by (simp add: updateDailyNote_def updateDailyNoteWith_def tryBlockWith_noFaults emit_def vaultRead_def Let_def guard_reset)

lemma updateDailyNote_written:
  assumes en: "autoEmbedTodosInDailyNote w" and nu: "\<not> isUpdating w"
    and fs: "markdownFiles w = Inr files"
    and td: "(case sd of Some d \<Rightarrow> d | None \<Rightarrow> today w) = td"
    and f: "findDailyNote td files = Some f"
    and rd: "map_of (contents w) (path f) = Some content"
    and ab: "updateReminderSection (dailyNoteSectionMarker w) content
               (byDate w td) = Some new"
    and ne: "content \<noteq> new" and wr: "path f \<notin> set (readOnly w)"
  shows "updateDailyNote quiet sd w =
     (None, w\<lparr>contents := AList.update (path f) new (contents w),
              trace := trace w @ [GetMarkdownFiles, VaultRead (path f), VaultModify (path f) new]
                 @ (if quiet then []
                    else [Notice (DailyNoteUpdated td)])\<rparr>)"
  using assms
  by (simp add: updateDailyNote_def updateDailyNoteWith_def tryBlockWith_noFaults emit_def vaultRead_def vaultModify_def Let_def guard_reset)

lemma updateDailyNote_no_note:
  assumes en: "autoEmbedTodosInDailyNote w" and nu: "\<not> isUpdating w"
    and fs: "markdownFiles w = Inr files"
    and td: "(case sd of Some d \<Rightarrow> d | None \<Rightarrow> today w) = td"
    and f: "findDailyNote td files = None"
  shows "updateDailyNote quiet sd w =
     (None, w\<lparr>trace := trace w @ [GetMarkdownFiles]
                 @ (if quiet then []
                    else [Notice (DailyNoteNotFound td)])\<rparr>)"
  using assms
  by (simp add: updateDailyNote_def updateDailyNoteWith_def emit_def Let_def guard_reset)

lemma updateDailyNote_enumeration_fails:
  assumes en: "autoEmbedTodosInDailyNote w" and nu: "\<not> isUpdating w"
    and fs: "markdownFiles w = Inl e"
  shows "updateDailyNote quiet sd w = (Some e, w\<lparr>trace := trace w @ [GetMarkdownFiles]\<rparr>)"
  using assms
  by (simp add: updateDailyNote_def updateDailyNoteWith_def emit_def Let_def guard_reset)

lemma updateDailyNoteWith_returns:
  assumes "markdownFiles w = Inr files"
  shows "fst (updateDailyNoteWith k quiet sd w) = None
       \<and> isUpdating (snd (updateDailyNoteWith k quiet sd w)) = isUpdating w"
  using assms
  by (auto simp: updateDailyNoteWith_def emit_def Let_def split: option.splits prod.splits)

lemma updateDailyNoteWith_byDate_fails:
  assumes en: "autoEmbedTodosInDailyNote w" and nu: "\<not> isUpdating w"
    and fs: "markdownFiles w = Inr files"
    and td: "(case sd of Some d \<Rightarrow> d | None \<Rightarrow> today w) = td"
    and f: "findDailyNote td files = Some f"
    and bf: "byDateFault k = Some e"
  shows "updateDailyNoteWith k quiet sd w =
     (None, w\<lparr>trace := trace w @ [GetMarkdownFiles, ConsoleError e]
                 @ (if quiet then [] else [Notice UpdateFailed])\<rparr>)"
  using assms
  by (simp add: updateDailyNoteWith_def tryBlockWith_def catchBlock_def emit_def Let_def guard_reset)

lemma updateDailyNoteWith_read_fails:
  assumes en: "autoEmbedTodosInDailyNote w" and nu: "\<not> isUpdating w"
    and fs: "markdownFiles w = Inr files"
    and td: "(case sd of Some d \<Rightarrow> d | None \<Rightarrow> today w) = td"
    and f: "findDailyNote td files = Some f"
    and bf: "byDateFault k = None"
    and rd: "map_of (contents w) (path f) = None"
  shows "updateDailyNoteWith k quiet sd w =
     (None, w\<lparr>trace := trace w @ [GetMarkdownFiles, VaultRead (path f), ConsoleError (ReadError (path f))]
                 @ (if quiet then [] else [Notice UpdateFailed])\<rparr>)"
  using assms
  by (simp add: updateDailyNoteWith_def tryBlockWith_def catchBlock_def emit_def vaultRead_def
      Let_def guard_reset)

lemma updateDailyNoteWith_key_fails:
  assumes en: "autoEmbedTodosInDailyNote w" and nu: "\<not> isUpdating w"
    and fs: "markdownFiles w = Inr files"
    and td: "(case sd of Some d \<Rightarrow> d | None \<Rightarrow> today w) = td"
    and f: "findDailyNote td files = Some f"
    and bf: "byDateFault k = None"
    and rd: "map_of (contents w) (path f) = Some content"
    and s: "indexOf content (startMarker (dailyNoteSectionMarker w)) \<noteq> - 1"
    and e: "indexOf content (endMarker (dailyNoteSectionMarker w)) \<noteq> - 1"
    and kf: "firstFault (keyFault k) (byDate w td) = Some err"
  shows "updateDailyNoteWith k quiet sd w =
     (None, w\<lparr>trace := trace w @ [GetMarkdownFiles, VaultRead (path f), ConsoleError err]
                 @ (if quiet then [] else [Notice UpdateFailed])\<rparr>)"
  using assms
  by (simp add: updateDailyNoteWith_def tryBlockWith_def updateReminderSectionWith_def
      catchBlock_def emit_def vaultRead_def Let_def guard_reset)

lemma updateDailyNoteWith_write_fails:
  assumes en: "autoEmbedTodosInDailyNote w" and nu: "\<not> isUpdating w"
    and fs: "markdownFiles w = Inr files"
    and td: "(case sd of Some d \<Rightarrow> d | None \<Rightarrow> today w) = td"
    and f: "findDailyNote td files = Some f"
    and bf: "byDateFault k = None"
    and rd: "map_of (contents w) (path f) = Some content"
    and kf: "firstFault (keyFault k) (byDate w td) = None"
    and ab: "updateReminderSection (dailyNoteSectionMarker w) content (byDate w td) = Some new"
    and ne: "content \<noteq> new" and wr: "path f \<in> set (readOnly w)"
  shows "updateDailyNoteWith k quiet sd w =
     (None, w\<lparr>trace := trace w @ [GetMarkdownFiles, VaultRead (path f), VaultModify (path f) new,
                   ConsoleError (WriteError (path f))]
                 @ (if quiet then [] else [Notice UpdateFailed])\<rparr>)"
proof -
  from ab have "indexOf content (startMarker (dailyNoteSectionMarker w)) \<noteq> - 1"
    and "indexOf content (endMarker (dailyNoteSectionMarker w)) \<noteq> - 1"
    by (auto simp: updateReminderSection_def Let_def split: if_splits)
  with assms show ?thesis
    by (simp add: updateDailyNoteWith_def tryBlockWith_def updateReminderSectionWith_def
        catchBlock_def emit_def vaultRead_def vaultModify_def Let_def guard_reset)
qed

lemma tryBlockWith_sink_calls:
  "filter isSinkCall (trace (snd (tryBlockWith k quiet d f w))) = filter isSinkCall (trace w)"
  by (simp add: tryBlockWith_def emit_def vaultModify_def Let_def
      split: sum.splits option.splits)

lemma catchBlock_sink_calls:
  "filter isSinkCall (trace (catchBlock quiet e w)) = filter isSinkCall (trace w)"
  by (simp add: catchBlock_def emit_def Let_def)

lemma updateDailyNoteWith_sink_calls:
  "filter isSinkCall (trace (snd (updateDailyNoteWith k quiet sd w)))
     = filter isSinkCall (trace w)"
proof -
  have t: "\<And>x. filter isSinkCall (trace (snd x\<lparr>isUpdating := False\<rparr>))
      = filter isSinkCall (trace (snd x))" by simp
  show ?thesis
    using tryBlockWith_sink_calls catchBlock_sink_calls
    by (auto simp: updateDailyNoteWith_def emit_def Let_def
        split: sum.splits option.splits prod.splits
        dest!: arg_cong[where f = "\<lambda>x. filter isSinkCall (trace (snd x))"])
qed

section \<open>Facts about handleFileModify\<close>

lemma syncLines_no_update:
  "list_all (\<lambda>l. lineUpdate c todos l = None) ls \<Longrightarrow>
   syncLines c ls todos changed w = (None, changed, w)"
  by (induction ls) simp_all

lemma syncLines_changed:
  "syncLines c ls todos True w = (None, ch, w') \<Longrightarrow> ch"
proof (induction ls arbitrary: todos w)
  case Nil
  then show ?case by simp
next
  case (Cons l ls)
  show ?case
  proof (cases "lineUpdate c todos l")
    case None
    with Cons show ?thesis by simp
  next
    case (Some rb)
    obtain r b where rb: "rb = (r, b)" by (cases rb)
    obtain thr todos' w1 where u:
      "updateReminder c r b todos (emit (UpdateReminder r b) w) = (thr, todos', w1)"
      by (cases "updateReminder c r b todos (emit (UpdateReminder r b) w)") auto
    show ?thesis
    proof (cases thr)
      case None
      with Cons.prems Some rb u have "syncLines c ls todos' True w1 = (None, ch, w')" by simp
      then show ?thesis by (rule Cons.IH)
    next
      case (Some e)
      with Cons.prems \<open>lineUpdate c todos l = Some rb\<close> rb u show ?thesis by simp
    qed
  qed
qed

lemma syncLines_some_update:
  "\<not> list_all (\<lambda>l. lineUpdate c todos l = None) ls \<Longrightarrow>
   syncLines c ls todos False w = (None, ch, w') \<Longrightarrow> ch"
proof (induction ls)
  case Nil
  then show ?case by simp
next
  case (Cons l ls)
  show ?case
  proof (cases "lineUpdate c todos l")
    case None
    with Cons show ?thesis by simp
  next
    case (Some rb)
    obtain r b where rb: "rb = (r, b)" by (cases rb)
    obtain thr todos' w1 where u:
      "updateReminder c r b todos (emit (UpdateReminder r b) w) = (thr, todos', w1)"
      by (cases "updateReminder c r b todos (emit (UpdateReminder r b) w)") auto
    show ?thesis
    proof (cases thr)
      case None
      with Cons.prems Some rb u have "syncLines c ls todos' True w1 = (None, ch, w')" by simp
      then show ?thesis by (rule syncLines_changed)
    next
      case (Some e)
      with Cons.prems(2) \<open>lineUpdate c todos l = Some rb\<close> rb u show ?thesis by simp
    qed
  qed
qed

lemma handleFileModify_section:
  assumes en: "autoEmbedTodosInDailyNote w" and nu: "\<not> isUpdating w"
    and dt: "getDailyNoteDate c file = Some fileDate"
    and rd: "map_of (contents w) (path file) = Some content"
    and s: "indexOf content (startMarker (dailyNoteSectionMarker w)) = int s"
    and e: "indexOf content (endMarker (dailyNoteSectionMarker w)) = int e"
  shows "handleFileModify c file w =
     (case syncLines c
             (split_nl (substring content
                (int s + int (length (startMarker (dailyNoteSectionMarker w)))) (int e)))
             (byDate w fileDate) False (emit (VaultRead (path file)) w) of
        (Some err, changed, w2) \<Rightarrow> (Some err, w2)
      | (None, changed, w2) \<Rightarrow>
          if \<not> changed then updateDailyNote True (Some fileDate) w2 else (None, w2))"
  using assms
  by (simp add: handleFileModify_def vaultRead_def emit_def Let_def)

lemma find_map_invariant:
  "(\<And>x. P (g x) = P x) \<Longrightarrow> find P (map g xs) = map_option g (find P xs)"
  by (induction xs) simp_all

lemma matchesTodo_rdone: "matchesTodo t (r\<lparr>rdone := b\<rparr>) = matchesTodo t r"
  by (simp add: matchesTodo_def split: option.splits)

lemma lineUpdate_target:
  "lineUpdate c todos l =
     (case lineTarget c todos l of
        None \<Rightarrow> None
      | Some (r, b) \<Rightarrow> if rdone r \<noteq> b then Some (r, b) else None)"
  by (simp add: lineUpdate_def lineTarget_def Let_def split: option.splits)

lemma matchesTodo_markDone: "matchesTodo t (markDone r b x) = matchesTodo t x"
  by (simp add: markDone_def matchesTodo_rdone)

lemma lineTarget_markDone:
  "lineTarget c (map (markDone r0 b0) todos) l
     = map_option (\<lambda>(r, b). (markDone r0 b0 r, b)) (lineTarget c todos l)"
proof (cases "parseTodo c (trim l)")
  case None
  then show ?thesis by (simp add: lineTarget_def)
next
  case (Some t)
  have "find (matchesTodo t) (map (markDone r0 b0) todos)
        = map_option (markDone r0 b0) (find (matchesTodo t) todos)"
    by (rule find_map_invariant) (simp add: matchesTodo_markDone)
  with Some show ?thesis
    by (simp add: lineTarget_def option.map_comp comp_def)
qed

lemma rkey_markDone: "rkey (markDone r b x) = rkey x"
  by (simp add: markDone_def)

lemma rdone_markDone: "rdone (markDone r b x) = (if rkey x = rkey r then b else rdone x)"
  by (simp add: markDone_def)

lemma linesAgree_markDone:
  "linesAgree (lineTarget c (map (markDone r0 b0) todos) l1)
              (lineTarget c (map (markDone r0 b0) todos) l2)
   = linesAgree (lineTarget c todos l1) (lineTarget c todos l2)"
  by (simp add: lineTarget_markDone linesAgree_def rkey_markDone split: option.splits prod.splits)

lemma settled_after_mark:
  assumes u: "lineUpdate c todos l = Some (r, b)"
    and ag: "linesAgree (lineTarget c todos p) (lineTarget c todos l)"
    and p: "lineUpdate c todos p = None \<or> p = l"
  shows "lineUpdate c (map (markDone r b) todos) p = None"
proof (cases "lineTarget c todos p")
  case None
  then show ?thesis by (simp add: lineUpdate_target lineTarget_markDone)
next
  case (Some rb)
  obtain rp bp where rb: "rb = (rp, bp)" by (cases rb)
  from u have tl: "lineTarget c todos l = Some (r, b)" and d: "rdone r \<noteq> b"
    by (auto simp: lineUpdate_target split: option.splits prod.splits if_splits)
  have "rdone (markDone r b rp) = bp"
  proof (cases "rkey rp = rkey r")
    case True
    with ag Some rb tl have "bp = b" by (simp add: linesAgree_def)
    with True show ?thesis by (simp add: rdone_markDone)
  next
    case False
    with p Some rb tl have "rdone rp = bp"
      by (auto simp: lineUpdate_target split: if_splits)
    with False show ?thesis by (simp add: rdone_markDone)
  qed
  with Some rb show ?thesis
    by (simp add: lineUpdate_target lineTarget_markDone)
qed

lemma settle_all:
  assumes "\<forall>l1 \<in> set (ps @ ls). \<forall>l2 \<in> set (ps @ ls).
             linesAgree (lineTarget c todos l1) (lineTarget c todos l2)"
    and "\<forall>p \<in> set ps. lineUpdate c todos p = None"
  shows "\<forall>l \<in> set (ps @ ls). lineUpdate c (applyMarks (sinkCalls c ls todos) todos) l = None"
  using assms
proof (induction ls arbitrary: ps todos)
  case Nil
  then show ?case by simp
next
  case (Cons l ls)
  show ?case
  proof (cases "lineUpdate c todos l")
    case None
    have "\<forall>x \<in> set ((ps @ [l]) @ ls).
            lineUpdate c (applyMarks (sinkCalls c ls todos) todos) x = None"
    proof (rule Cons.IH)
      show "\<forall>l1 \<in> set ((ps @ [l]) @ ls). \<forall>l2 \<in> set ((ps @ [l]) @ ls).
             linesAgree (lineTarget c todos l1) (lineTarget c todos l2)"
        using Cons.prems(1) by simp
      show "\<forall>p \<in> set (ps @ [l]). lineUpdate c todos p = None"
        using Cons.prems(2) None by simp
    qed
    with None show ?thesis by simp
  next
    case (Some rb)
    obtain r b where rb: "rb = (r, b)" by (cases rb)
    with Some have u: "lineUpdate c todos l = Some (r, b)" by simp
    let ?todos = "map (markDone r b) todos"
    have "\<forall>x \<in> set ((ps @ [l]) @ ls).
            lineUpdate c (applyMarks (sinkCalls c ls ?todos) ?todos) x = None"
    proof (rule Cons.IH)
      show "\<forall>l1 \<in> set ((ps @ [l]) @ ls). \<forall>l2 \<in> set ((ps @ [l]) @ ls).
             linesAgree (lineTarget c ?todos l1) (lineTarget c ?todos l2)"
        using Cons.prems(1) by (simp add: linesAgree_markDone)
      show "\<forall>p \<in> set (ps @ [l]). lineUpdate c ?todos p = None"
      proof
        fix p assume p: "p \<in> set (ps @ [l])"
        then have pl: "lineUpdate c todos p = None \<or> p = l" using Cons.prems(2) by auto
        have ag: "linesAgree (lineTarget c todos p) (lineTarget c todos l)"
          using Cons.prems(1) p by auto
        show "lineUpdate c ?todos p = None"
          by (rule settled_after_mark[OF u ag pl])
      qed
    qed
    with u show ?thesis by simp
  qed
qed

lemma consistentLines_iff:
  "consistentLines c todos ls \<longleftrightarrow>
     (\<forall>l1 \<in> set ls. \<forall>l2 \<in> set ls. linesAgree (lineTarget c todos l1) (lineTarget c todos l2))"
  by (simp add: consistentLines_def list_all_iff)

lemma settled_after_run:
  assumes "consistentLines c todos ls"
  shows "list_all (\<lambda>l. lineUpdate c (applyMarks (sinkCalls c ls todos) todos) l = None) ls"
proof -
  from assms have "\<forall>l1 \<in> set ([] @ ls). \<forall>l2 \<in> set ([] @ ls).
             linesAgree (lineTarget c todos l1) (lineTarget c todos l2)"
    by (simp add: consistentLines_iff)
  from settle_all[OF this] show ?thesis by (simp add: list_all_iff)
qed

lemma world_same: "w\<lparr>byDate := byDate w, trace := trace w\<rparr> = w"
  by (cases w) simp

lemma syncLines_setDone:
  assumes sink: "updateReminder c = setDone"
  shows "syncLines c ls todos ch w =
     (None, ch \<or> sinkCalls c ls todos \<noteq> [],
      w\<lparr>byDate := (\<lambda>d. applyMarks (sinkCalls c ls todos) (byDate w d)),
        trace := trace w @ map (\<lambda>(r, b). UpdateReminder r b) (sinkCalls c ls todos)\<rparr>)"
proof (induction ls arbitrary: todos ch w)
  case Nil
  show ?case by (simp add: world_same)
next
  case (Cons l ls)
  show ?case
  proof (cases "lineUpdate c todos l")
    case None
    with Cons show ?thesis by simp
  next
    case (Some rb)
    obtain r b where rb: "rb = (r, b)" by (cases rb)
    with Some have u: "lineUpdate c todos l = Some (r, b)" by simp
    show ?thesis
      by (simp add: u sink setDone_def Cons emit_def)
  qed
qed

lemma sinkCalls_empty_iff:
  "sinkCalls c ls todos = [] \<longleftrightarrow> list_all (\<lambda>l. lineUpdate c todos l = None) ls"
  by (induction ls) (auto split: option.splits)

lemma rerun_silent:
  assumes sink: "updateReminder c = setDone"
    and en: "autoEmbedTodosInDailyNote w" and nu: "\<not> isUpdating w"
    and dt: "getDailyNoteDate c file = Some fileDate"
    and rd: "map_of (contents w) (path file) = Some content"
    and s: "indexOf content (startMarker (dailyNoteSectionMarker w)) = int s"
    and e: "indexOf content (endMarker (dailyNoteSectionMarker w)) = int e"
    and ls: "ls = split_nl (substring content
                (int s + int (length (startMarker (dailyNoteSectionMarker w)))) (int e))"
    and cons: "consistentLines c (byDate w fileDate) ls"
    and upd: "\<not> list_all (\<lambda>l. lineUpdate c (byDate w fileDate) l = None) ls"
    and w1: "w1 = snd (handleFileModify c file w)"
  shows "fst (handleFileModify c file w) = None
       \<and> list_all (\<lambda>l. lineUpdate c (byDate w1 fileDate) l = None) ls
       \<and> fst (handleFileModify c file w1) = fst (updateDailyNote True (Some fileDate)
                                                   (emit (VaultRead (path file)) w1))
       \<and> filter isSinkCall (trace (snd (handleFileModify c file w1)))
           = filter isSinkCall (trace w1)"
proof -
  let ?todos = "byDate w fileDate"
  let ?calls = "sinkCalls c ls ?todos"
  let ?r0 = "emit (VaultRead (path file)) w"
  let ?W = "?r0\<lparr>byDate := (\<lambda>d. applyMarks ?calls (byDate ?r0 d)),
               trace := trace ?r0 @ map (\<lambda>(r, b). UpdateReminder r b) ?calls\<rparr>"
  from upd have ne: "?calls \<noteq> []" by (simp add: sinkCalls_empty_iff)
  have run: "syncLines c ls ?todos False ?r0 = (None, True, ?W)"
    using syncLines_setDone[OF sink, of ls ?todos False ?r0] ne by simp
  have first: "handleFileModify c file w = (None, ?W)"
    unfolding handleFileModify_section[OF en nu dt rd s e] ls[symmetric] run by simp
  with w1 have W: "w1 = ?W" by simp
  have en1: "autoEmbedTodosInDailyNote w1" and nu1: "\<not> isUpdating w1"
    and rd1: "map_of (contents w1) (path file) = Some content"
    and m1: "dailyNoteSectionMarker w1 = dailyNoteSectionMarker w"
    and b1: "byDate w1 fileDate = applyMarks ?calls ?todos"
    using en nu rd by (simp_all add: W emit_def)
  have settled: "list_all (\<lambda>l. lineUpdate c (byDate w1 fileDate) l = None) ls"
    unfolding b1 by (rule settled_after_run[OF cons])
  have s1: "indexOf content (startMarker (dailyNoteSectionMarker w1)) = int s"
    and e1: "indexOf content (endMarker (dailyNoteSectionMarker w1)) = int e"
    and ls1: "ls = split_nl (substring content
                (int s + int (length (startMarker (dailyNoteSectionMarker w1)))) (int e))"
    using s e ls by (simp_all add: m1)
  have "syncLines c ls (byDate w1 fileDate) False (emit (VaultRead (path file)) w1)
        = (None, False, emit (VaultRead (path file)) w1)"
    by (rule syncLines_no_update[OF settled])
  then have second: "handleFileModify c file w1
      = updateDailyNote True (Some fileDate) (emit (VaultRead (path file)) w1)"
    unfolding handleFileModify_section[OF en1 nu1 dt rd1 s1 e1] ls1[symmetric] by simp
  have "filter isSinkCall (trace (snd (handleFileModify c file w1)))
      = filter isSinkCall (trace (emit (VaultRead (path file)) w1))"
    unfolding second updateDailyNote_def by (rule updateDailyNoteWith_sink_calls)
  also have "\<dots> = filter isSinkCall (trace w1)" by (simp add: emit_def)
  finally show ?thesis using first settled second by simp
qed

section \<open>The claims\<close>

text \<open>
  C1, as the code has it. Among the candidates of the selected stage (the exact matches,
  or the loose matches when there is no exact one), \<open>findDailyNote\<close> returns the last one
  in input order of those with the greatest \<open>mtime\<close>: on a tie the later file wins,
  since \<open>reduce\<close> keeps the earlier file only when it is strictly newer.
\<close>

theorem findDailyNote_tie_last:
  assumes "matchingFiles d files = cands" and "cands \<noteq> []"
  shows "findDailyNote d files
         = Some (last (filter (\<lambda>f. mtime f = Max (mtime ` set cands)) cands))"
proof -
  from assms(2) obtain f fs where c: "cands = f # fs" by (cases cands) auto
  with assms(1) have "findDailyNote d files = Some (foldl newer (hd cands) (tl cands))"
    by (simp add: findDailyNote_def)
  with reduce_newer[OF assms(2)] show ?thesis by simp
qed

theorem findDailyNote_tie_last_witness:
  "matchingFiles ''2024-01-05'' [exactNote, archiveNote] = [exactNote, archiveNote]
   \<and> findDailyNote ''2024-01-05'' [exactNote, archiveNote] = Some archiveNote"
proof -
  have m: "matchingFiles ''2024-01-05'' [exactNote, archiveNote] = [exactNote, archiveNote]"
    by (simp add: matchingFiles_def exactMatches_def exactNote_def archiveNote_def)
  have ne: "[exactNote, archiveNote] \<noteq> []" by simp
  have "last (filter (\<lambda>f. mtime f = Max (mtime ` set [exactNote, archiveNote]))
          [exactNote, archiveNote]) = archiveNote"
    by (simp add: exactNote_def archiveNote_def)
  with findDailyNote_tie_last[OF m ne] m show ?thesis by simp
qed

text \<open>
  Two exact matches with the same \<open>mtime\<close>: the first one in input order is not the
  one returned.
\<close>

theorem findDailyNote_tie_first_counterexample:
  "matchingFiles ''2024-01-05'' [exactNote, archiveNote] = [exactNote, archiveNote]
   \<and> mtime exactNote = mtime archiveNote
   \<and> findDailyNote ''2024-01-05'' [exactNote, archiveNote] \<noteq> Some exactNote"
  by (simp add: findDailyNote_def matchingFiles_def exactMatches_def newer_def
      exactNote_def archiveNote_def)

text \<open>
  C2. When both markers occur and the start marker's first occurrence is before the end
  marker's, \<open>updateReminderSection\<close> returns the text before the start marker, then the
  start marker, one newline, the rendered lines, one newline and the end marker, then the
  text after the end marker. The part it replaces runs from the start of the start marker
  through the end of the end marker: it begins with the one and ends with the other, and
  the text on either side of it is kept as it is.
\<close>

theorem updateReminderSection_splices:
  assumes s: "indexOf content (startMarker m) = int s"
    and e: "indexOf content (endMarker m) = int e"
    and lt: "s < e"
  shows "updateReminderSection m content rs =
           Some (take s content @ startMarker m @ newline @ reminderLines rs @ newline
                 @ endMarker m @ drop (e + length (endMarker m)) content)
         \<and> content = take s content
               @ take (e + length (endMarker m) - s) (drop s content)
               @ drop (e + length (endMarker m)) content
         \<and> prefix (startMarker m) (take (e + length (endMarker m) - s) (drop s content))
         \<and> suffix (endMarker m) (take (e + length (endMarker m) - s) (drop s content))"
proof -
  let ?k = "e + length (endMarker m) - s"
  have res: "updateReminderSection m content rs =
           Some (take s content @ startMarker m @ newline @ reminderLines rs @ newline
                 @ endMarker m @ drop (e + length (endMarker m)) content)"
    using updateReminderSection_found[OF s e] by (simp add: newSection_def)
  have "drop ?k (drop s content) = drop (e + length (endMarker m)) content"
    using lt by simp
  then have dec: "content = take s content @ take ?k (drop s content)
        @ drop (e + length (endMarker m)) content"
    by (metis append_take_drop_id)
  from markers_not_adjacent[OF s e] lt have "s + 2 \<le> e" by simp
  then have "length (startMarker m) \<le> ?k"
    by (simp add: length_startMarker length_endMarker)
  with indexOf_found[OF s]
  have pre: "prefix (startMarker m) (take ?k (drop s content))"
    by (simp add: prefix_take)
  have "?k = (e - s) + length (endMarker m)" using lt by simp
  then have "take ?k (drop s content) =
      take (e - s) (drop s content) @ take (length (endMarker m)) (drop (e - s) (drop s content))"
    by (simp add: take_add)
  moreover have "drop (e - s) (drop s content) = drop e content" using lt by simp
  moreover from indexOf_found[OF e]
  have "take (length (endMarker m)) (drop e content) = endMarker m"
    by (auto simp: prefix_def)
  ultimately have "take ?k (drop s content) = take (e - s) (drop s content) @ endMarker m"
    by simp
  then have suf: "suffix (endMarker m) (take ?k (drop s content))"
    by (simp add: suffix_def)
  from res dec pre suf show ?thesis by blast
qed

theorem updateReminderSection_splices_witness:
  "indexOf dailyText (startMarker ''todos'') = 9
   \<and> indexOf dailyText (endMarker ''todos'') = 39
   \<and> updateReminderSection ''todos'' dailyText [buyMilk] =
       Some ''# Friday\<newline><!-- start of todos -->\<newline>- [ ] Buy milk [[groceries.md|source]] <!-- reminder-key: abc123 -->\<newline><!-- end of todos -->\<newline>tail''"
proof -
  have s: "indexOf dailyText (startMarker ''todos'') = int 9" by code_simp
  have e: "indexOf dailyText (endMarker ''todos'') = int 39" by code_simp
  have lt: "(9::nat) < 39" by simp
  have r: "take 9 dailyText @ startMarker ''todos'' @ newline @ reminderLines [buyMilk] @ newline
          @ endMarker ''todos'' @ drop (39 + length (endMarker ''todos'')) dailyText
        = ''# Friday\<newline><!-- start of todos -->\<newline>- [ ] Buy milk [[groceries.md|source]] <!-- reminder-key: abc123 -->\<newline><!-- end of todos -->\<newline>tail''"
    by code_simp
  from updateReminderSection_splices[OF s e lt, of "[buyMilk]"] r s e show ?thesis by simp
qed

text \<open>
  C3, as the code has it. Let the start marker's first occurrence be before the end
  marker's, and let the first end marker of the rendered section be the one that closes it
  (no rendered line holds the end marker). Then rendering the same reminders into the
  rendered text returns that text again, and \<open>updateDailyNote\<close> on a note that holds it
  reads the note and writes nothing: it ends with the notice that the note is up to date,
  or silently when quiet.
\<close>

theorem render_idempotent:
  assumes s: "indexOf content (startMarker m) = int s"
    and e: "indexOf content (endMarker m) = int e"
    and lt: "s < e"
    and inner: "indexOf (newSection m rs) (endMarker m)
                  = int (length (newSection m rs) - length (endMarker m))"
    and r: "updateReminderSection m content rs = Some r"
  shows "updateReminderSection m r rs = Some r
       \<and> (\<forall>w quiet sd files td f.
             autoEmbedTodosInDailyNote w \<and> \<not> isUpdating w \<and> markdownFiles w = Inr files
             \<and> (case sd of Some d \<Rightarrow> d | None \<Rightarrow> today w) = td
             \<and> findDailyNote td files = Some f
             \<and> map_of (contents w) (path f) = Some r
             \<and> dailyNoteSectionMarker w = m \<and> byDate w td = rs \<longrightarrow>
           updateDailyNote quiet sd w =
             (None, w\<lparr>trace := trace w @ [GetMarkdownFiles, VaultRead (path f)]
                        @ (if quiet then [] else [Notice DailyNoteUpToDate])\<rparr>))"
proof (intro conjI allI impI)
  show fp: "updateReminderSection m r rs = Some r"
    by (rule rewrite_idempotent[OF s e lt inner r])
  fix w :: world and quiet sd files td f
  assume a: "autoEmbedTodosInDailyNote w \<and> \<not> isUpdating w \<and> markdownFiles w = Inr files
             \<and> (case sd of Some d \<Rightarrow> d | None \<Rightarrow> today w) = td
             \<and> findDailyNote td files = Some f
             \<and> map_of (contents w) (path f) = Some r
             \<and> dailyNoteSectionMarker w = m \<and> byDate w td = rs"
  with fp have "updateReminderSection (dailyNoteSectionMarker w) r (byDate w td) = Some r"
    by simp
  with a show "updateDailyNote quiet sd w =
             (None, w\<lparr>trace := trace w @ [GetMarkdownFiles, VaultRead (path f)]
                        @ (if quiet then [] else [Notice DailyNoteUpToDate])\<rparr>)"
    using updateDailyNote_unchanged[of w files sd td f r quiet] by blast
qed

theorem render_idempotent_witness:
  "updateReminderSection ''todos'' dailyText [buyMilk] = Some renderedText
   \<and> updateReminderSection ''todos'' renderedText [buyMilk] = Some renderedText
   \<and> updateDailyNote True None (vault renderedText) =
         (None, (vault renderedText)\<lparr>trace := [GetMarkdownFiles, VaultRead ''2024-01-05.md'']\<rparr>)"
proof -
  have s: "indexOf dailyText (startMarker ''todos'') = int 9" by code_simp
  have e: "indexOf dailyText (endMarker ''todos'') = int 39" by code_simp
  have lt: "(9::nat) < 39" by simp
  have inner: "indexOf (newSection ''todos'' [buyMilk]) (endMarker ''todos'')
      = int (length (newSection ''todos'' [buyMilk]) - length (endMarker ''todos''))"
    by code_simp
  have r: "updateReminderSection ''todos'' dailyText [buyMilk] = Some renderedText"
    by code_simp
  note inst = render_idempotent[OF s e lt inner r]
  have f: "findDailyNote ''2024-01-05'' [backupNote, exactNote] = Some exactNote"
    by code_simp
  have p: "path exactNote = ''2024-01-05.md''" by (simp add: exactNote_def)
  have "autoEmbedTodosInDailyNote (vault renderedText) \<and> \<not> isUpdating (vault renderedText)
      \<and> markdownFiles (vault renderedText) = Inr [backupNote, exactNote]
      \<and> (case None of Some d \<Rightarrow> d | None \<Rightarrow> today (vault renderedText)) = ''2024-01-05''
      \<and> findDailyNote ''2024-01-05'' [backupNote, exactNote] = Some exactNote
      \<and> map_of (contents (vault renderedText)) (path exactNote) = Some renderedText
      \<and> dailyNoteSectionMarker (vault renderedText) = ''todos''
      \<and> byDate (vault renderedText) ''2024-01-05'' = [buyMilk]"
    using f p by (simp add: vault_def)
  with inst have "updateDailyNote True None (vault renderedText) =
         (None, (vault renderedText)\<lparr>trace := trace (vault renderedText)
             @ [GetMarkdownFiles, VaultRead (path exactNote)] @ (if True then [] else [Notice DailyNoteUpToDate])\<rparr>)"
    by blast
  then have "updateDailyNote True None (vault renderedText) =
         (None, (vault renderedText)\<lparr>trace := [GetMarkdownFiles, VaultRead ''2024-01-05.md'']\<rparr>)"
    by (simp add: p) (simp add: vault_def)
  with inst r show ?thesis by blast
qed

text \<open>
  Two texts a second render changes. With the end marker before the start marker every
  render adds another copy of the section. With a title that holds the end marker the
  second render stops at that title.
\<close>

theorem render_not_idempotent_counterexample:
  "updateReminderSection ''todos'' reversedText [] =
      Some (reversedText @ newline @ newline @ reversedText)
   \<and> updateReminderSection ''todos'' (reversedText @ newline @ newline @ reversedText) [] \<noteq>
      Some (reversedText @ newline @ newline @ reversedText)
   \<and> updateReminderSection ''todos'' ''<!-- start of todos -->\<newline><!-- end of todos -->''
        [\<lparr>title = ''see <!-- end of todos -->'', rdone = False, rfile = ''a.md'', rkey = ''k''\<rparr>] =
      Some ''<!-- start of todos -->\<newline>- [ ] see <!-- end of todos --> [[a.md|source]] <!-- reminder-key: k -->\<newline><!-- end of todos -->''
   \<and> updateReminderSection ''todos''
        ''<!-- start of todos -->\<newline>- [ ] see <!-- end of todos --> [[a.md|source]] <!-- reminder-key: k -->\<newline><!-- end of todos -->''
        [\<lparr>title = ''see <!-- end of todos -->'', rdone = False, rfile = ''a.md'', rkey = ''k''\<rparr>] =
      Some ''<!-- start of todos -->\<newline>- [ ] see <!-- end of todos --> [[a.md|source]] <!-- reminder-key: k -->\<newline><!-- end of todos --> [[a.md|source]] <!-- reminder-key: k -->\<newline><!-- end of todos -->''"
  by code_simp

text \<open>
  C4. When the start marker or the end marker is missing in the text of the daily note,
  \<open>updateReminderSection\<close> returns \<open>None\<close> for every reminder list, and
  \<open>updateDailyNote\<close> leaves the state as it was but for the trace: the enumeration, the
  read and, unless quiet, the notice that the markers were not found. No
  \<open>vault.modify\<close> is called and the contents of the vault are unchanged.
\<close>

theorem markers_absent_no_write:
  assumes ab: "indexOf content (startMarker (dailyNoteSectionMarker w)) = - 1
             \<or> indexOf content (endMarker (dailyNoteSectionMarker w)) = - 1"
    and en: "autoEmbedTodosInDailyNote w" and nu: "\<not> isUpdating w"
    and fs: "markdownFiles w = Inr files"
    and td: "(case sd of Some d \<Rightarrow> d | None \<Rightarrow> today w) = td"
    and f: "findDailyNote td files = Some f"
    and rd: "map_of (contents w) (path f) = Some content"
  shows "(\<forall>rs. updateReminderSection (dailyNoteSectionMarker w) content rs = None)
       \<and> updateDailyNote quiet sd w =
           (None, w\<lparr>trace := trace w @ [GetMarkdownFiles, VaultRead (path f)]
              @ (if quiet then [] else [Notice (MarkerNotFound (dailyNoteSectionMarker w))])\<rparr>)"
  using absent_none[OF ab] updateDailyNote_absent[OF en nu fs td f rd absent_none[OF ab]]
  by blast

theorem markers_absent_no_write_witness:
  "indexOf plainText (startMarker ''todos'') = - 1
   \<and> updateReminderSection ''todos'' plainText [buyMilk] = None
   \<and> updateDailyNote False None (vault plainText) =
         (None, (vault plainText)\<lparr>trace := [GetMarkdownFiles, VaultRead ''2024-01-05.md'',
                                              Notice (MarkerNotFound ''todos'')]\<rparr>)"
proof -
  have m: "dailyNoteSectionMarker (vault plainText) = ''todos''" by (simp add: vault_def)
  have a: "indexOf plainText (startMarker ''todos'') = - 1" by code_simp
  then have ab: "indexOf plainText (startMarker (dailyNoteSectionMarker (vault plainText))) = - 1
      \<or> indexOf plainText (endMarker (dailyNoteSectionMarker (vault plainText))) = - 1"
    by (simp add: m)
  have en: "autoEmbedTodosInDailyNote (vault plainText)" by (simp add: vault_def)
  have nu: "\<not> isUpdating (vault plainText)" by (simp add: vault_def)
  have fs: "markdownFiles (vault plainText) = Inr [backupNote, exactNote]"
    by (simp add: vault_def)
  have td: "(case None of Some d \<Rightarrow> d | None \<Rightarrow> today (vault plainText)) = ''2024-01-05''"
    by (simp add: vault_def)
  have rd: "map_of (contents (vault plainText)) (path exactNote) = Some plainText"
    by (simp add: vault_def exactNote_def)
  from markers_absent_no_write[OF ab en nu fs td vault_target rd, of False]
  have "updateReminderSection ''todos'' plainText [buyMilk] = None"
    and "updateDailyNote False None (vault plainText) =
         (None, (vault plainText)\<lparr>trace := [GetMarkdownFiles, VaultRead ''2024-01-05.md'',
                                              Notice (MarkerNotFound ''todos'')]\<rparr>)"
    by (simp_all add: m) (simp_all add: vault_def exactNote_def)
  with a show ?thesis by blast
qed

text \<open>
  C5, as the code has it. For a line that parses as a checklist line: when its key
  comment holds a key that is not empty, the reminder is the first one with that key;
  otherwise, that is with no key comment or with an empty key, the reminder is the first
  one in collection order whose title is a prefix of the body. The line calls for an
  update of that reminder, with the line's checked state, exactly when the reminder's
  \<open>rdone\<close> differs from it. The loop passes over a line that calls for none and goes on
  with the rest; for a line that calls for one it calls the sink once with the two and,
  unless the sink throws, goes on with the rest and the flag set. Once that reminder's
  \<open>rdone\<close> is the line's checked state, the same line calls for no update.

  With the sink that sets \<open>done\<close>, and a section whose lines are consistent:
  after a run of \<open>handleFileModify\<close> that called the sink, no line of the section calls
  for an update any more, and the next run on the same note is the healing render and
  adds no sink call to the trace.
\<close>

theorem reconcile_line:
  assumes p: "parseTodo c (trim line) = Some t"
  shows "(\<forall>k. keyMatch (body t) = Some k \<and> k \<noteq> [] \<longrightarrow>
            find (matchesTodo t) todos = find (\<lambda>r. rkey r = k) todos)
       \<and> (keyMatch (body t) = Some [] \<longrightarrow>
            find (matchesTodo t) todos = find (\<lambda>r. prefix (title r) (body t)) todos)
       \<and> (keyMatch (body t) = None \<longrightarrow>
            find (matchesTodo t) todos = find (\<lambda>r. prefix (title r) (body t)) todos)
       \<and> (\<forall>r b. lineUpdate c todos line = Some (r, b) \<longleftrightarrow>
            find (matchesTodo t) todos = Some r \<and> b = checked t \<and> rdone r \<noteq> checked t)
       \<and> (lineUpdate c todos line = None \<longrightarrow>
            (\<forall>rest changed w. syncLines c (line # rest) todos changed w
                                = syncLines c rest todos changed w))
       \<and> (\<forall>r b. lineUpdate c todos line = Some (r, b) \<longrightarrow>
            (\<forall>rest changed w. syncLines c (line # rest) todos changed w =
               (case updateReminder c r b todos (emit (UpdateReminder r b) w) of
                  (Some e, todos', w') \<Rightarrow> (Some e, changed, w')
                | (None, todos', w') \<Rightarrow> syncLines c rest todos' True w')))
       \<and> (\<forall>r b. lineUpdate c todos line = Some (r, b) \<longrightarrow>
            lineUpdate c (map (\<lambda>x. if x = r then x\<lparr>rdone := b\<rparr> else x) todos) line = None)
       \<and> (\<forall>w file fileDate content s e ls w1.
            updateReminder c = setDone
            \<and> autoEmbedTodosInDailyNote w \<and> \<not> isUpdating w
            \<and> getDailyNoteDate c file = Some fileDate
            \<and> map_of (contents w) (path file) = Some content
            \<and> indexOf content (startMarker (dailyNoteSectionMarker w)) = int s
            \<and> indexOf content (endMarker (dailyNoteSectionMarker w)) = int e
            \<and> ls = split_nl (substring content
                       (int s + int (length (startMarker (dailyNoteSectionMarker w)))) (int e))
            \<and> consistentLines c (byDate w fileDate) ls
            \<and> \<not> list_all (\<lambda>l. lineUpdate c (byDate w fileDate) l = None) ls
            \<and> w1 = snd (handleFileModify c file w) \<longrightarrow>
            fst (handleFileModify c file w) = None
            \<and> list_all (\<lambda>l. lineUpdate c (byDate w1 fileDate) l = None) ls
            \<and> fst (handleFileModify c file w1)
                = fst (updateDailyNote True (Some fileDate) (emit (VaultRead (path file)) w1))
            \<and> filter isSinkCall (trace (snd (handleFileModify c file w1)))
                = filter isSinkCall (trace w1))"
proof (intro conjI allI impI)
  fix k assume "keyMatch (body t) = Some k \<and> k \<noteq> []"
  then have "matchesTodo t = (\<lambda>r. rkey r = k)"
    by (auto simp: matchesTodo_def fun_eq_iff)
  then show "find (matchesTodo t) todos = find (\<lambda>r. rkey r = k) todos" by simp
next
  assume "keyMatch (body t) = Some []"
  then have "matchesTodo t = (\<lambda>r. prefix (title r) (body t))"
    by (auto simp: matchesTodo_def fun_eq_iff)
  then show "find (matchesTodo t) todos = find (\<lambda>r. prefix (title r) (body t)) todos" by simp
next
  assume "keyMatch (body t) = None"
  then have "matchesTodo t = (\<lambda>r. prefix (title r) (body t))"
    by (auto simp: matchesTodo_def fun_eq_iff)
  then show "find (matchesTodo t) todos = find (\<lambda>r. prefix (title r) (body t)) todos" by simp
next
  fix r b
  show "lineUpdate c todos line = Some (r, b) \<longleftrightarrow>
            find (matchesTodo t) todos = Some r \<and> b = checked t \<and> rdone r \<noteq> checked t"
    using p by (auto simp: lineUpdate_def Let_def split: option.splits)
next
  fix rest changed w
  assume "lineUpdate c todos line = None"
  then show "syncLines c (line # rest) todos changed w = syncLines c rest todos changed w"
    by simp
next
  fix r b rest changed w
  assume "lineUpdate c todos line = Some (r, b)"
  then show "syncLines c (line # rest) todos changed w =
               (case updateReminder c r b todos (emit (UpdateReminder r b) w) of
                  (Some e, todos', w') \<Rightarrow> (Some e, changed, w')
                | (None, todos', w') \<Rightarrow> syncLines c rest todos' True w')"
    by (simp split: prod.splits option.splits)
next
  fix r b
  assume u: "lineUpdate c todos line = Some (r, b)"
  let ?g = "\<lambda>x. if x = r then x\<lparr>rdone := b\<rparr> else x"
  from u p have f: "find (matchesTodo t) todos = Some r" and b: "b = checked t"
    by (auto simp: lineUpdate_def Let_def split: option.splits if_splits)
  have "\<And>x. matchesTodo t (?g x) = matchesTodo t x"
    by (simp add: matchesTodo_rdone)
  then have "find (matchesTodo t) (map ?g todos) = map_option ?g (find (matchesTodo t) todos)"
    by (rule find_map_invariant)
  with f have "find (matchesTodo t) (map ?g todos) = Some (r\<lparr>rdone := b\<rparr>)" by simp
  with p b show "lineUpdate c (map ?g todos) line = None"
    by (simp add: lineUpdate_def Let_def)
next
  fix w :: world and fl fileDate content s e ls and w1 :: world
  assume a: "updateReminder c = setDone
            \<and> autoEmbedTodosInDailyNote w \<and> \<not> isUpdating w
            \<and> getDailyNoteDate c fl = Some fileDate
            \<and> map_of (contents w) (path fl) = Some content
            \<and> indexOf content (startMarker (dailyNoteSectionMarker w)) = int s
            \<and> indexOf content (endMarker (dailyNoteSectionMarker w)) = int e
            \<and> ls = split_nl (substring content
                       (int s + int (length (startMarker (dailyNoteSectionMarker w)))) (int e))
            \<and> consistentLines c (byDate w fileDate) ls
            \<and> \<not> list_all (\<lambda>l. lineUpdate c (byDate w fileDate) l = None) ls
            \<and> w1 = snd (handleFileModify c fl w)"
  then have r: "fst (handleFileModify c fl w) = None
       \<and> list_all (\<lambda>l. lineUpdate c (byDate w1 fileDate) l = None) ls
       \<and> fst (handleFileModify c fl w1) = fst (updateDailyNote True (Some fileDate)
                                                   (emit (VaultRead (path fl)) w1))
       \<and> filter isSinkCall (trace (snd (handleFileModify c fl w1)))
           = filter isSinkCall (trace w1)"
    using rerun_silent[of c w fl fileDate content s e ls w1] by blast
  from r show "fst (handleFileModify c fl w) = None" by blast
  from r show "list_all (\<lambda>l. lineUpdate c (byDate w1 fileDate) l = None) ls" by blast
  from r show "fst (handleFileModify c fl w1)
                = fst (updateDailyNote True (Some fileDate) (emit (VaultRead (path fl)) w1))"
    by blast
  from r show "filter isSinkCall (trace (snd (handleFileModify c fl w1)))
                = filter isSinkCall (trace w1)" by blast
qed

theorem reconcile_line_witness:
  "parseTodo plugin (trim ''  - [x] Buy milk [[groceries.md|source]] <!-- reminder-key: abc123 -->'')
     = Some \<lparr>body = ''Buy milk [[groceries.md|source]] <!-- reminder-key: abc123 -->'', checked = True\<rparr>
   \<and> keyMatch ''Buy milk [[groceries.md|source]] <!-- reminder-key: abc123 -->'' = Some ''abc123''
   \<and> lineUpdate plugin [buyMilk]
         ''  - [x] Buy milk [[groceries.md|source]] <!-- reminder-key: abc123 -->''
       = Some (buyMilk, True)
   \<and> lineUpdate plugin [buyMilk\<lparr>rdone := True\<rparr>]
         ''  - [x] Buy milk [[groceries.md|source]] <!-- reminder-key: abc123 -->''
       = None
   \<and> keyMatch ''Buy milk <!-- reminder-key:  -->'' = Some []
   \<and> find (matchesTodo \<lparr>body = ''Buy milk <!-- reminder-key:  -->'', checked = True\<rparr>) [buyMilk]
       = Some buyMilk
   \<and> filter isSinkCall (trace (snd (handleFileModify plugin exactNote (vault checkedText))))
       = [UpdateReminder buyMilk True]
   \<and> filter isSinkCall
         (trace (snd (handleFileModify plugin exactNote
                        (snd (handleFileModify plugin exactNote (vault checkedText))))))
       = [UpdateReminder buyMilk True]"
proof -
  let ?line = "''  - [x] Buy milk [[groceries.md|source]] <!-- reminder-key: abc123 -->''"
  let ?t = "\<lparr>body = ''Buy milk [[groceries.md|source]] <!-- reminder-key: abc123 -->'', checked = True\<rparr>"
  let ?t2 = "\<lparr>body = ''Buy milk <!-- reminder-key:  -->'', checked = True\<rparr>"
  have p: "parseTodo plugin (trim ?line) = Some ?t" by code_simp
  have k: "keyMatch (body ?t) = Some ''abc123''" by code_simp
  note inst = reconcile_line[OF p, of "[buyMilk]"]
  have kk: "keyMatch (body ?t) = Some ''abc123'' \<and> ''abc123'' \<noteq> []" using k by simp
  have "find (matchesTodo ?t) [buyMilk] = find (\<lambda>r. rkey r = ''abc123'') [buyMilk]"
    by (rule inst[THEN conjunct1, rule_format, OF kk])
  then have f: "find (matchesTodo ?t) [buyMilk] = Some buyMilk"
    by (simp add: buyMilk_def)
  have h4: "find (matchesTodo ?t) [buyMilk] = Some buyMilk \<and> True = checked ?t
        \<and> rdone buyMilk \<noteq> checked ?t"
    using f by (simp add: buyMilk_def)
  have u: "lineUpdate plugin [buyMilk] ?line = Some (buyMilk, True)"
    using inst[THEN conjunct2, THEN conjunct2, THEN conjunct2, THEN conjunct1, rule_format,
        of buyMilk True] h4 by simp
  have "lineUpdate plugin
      (map (\<lambda>x. if x = buyMilk then x\<lparr>rdone := True\<rparr> else x) [buyMilk]) ?line = None"
    by (rule inst[THEN conjunct2, THEN conjunct2, THEN conjunct2, THEN conjunct2,
          THEN conjunct2, THEN conjunct2, THEN conjunct1, rule_format, OF u])
  then have n: "lineUpdate plugin [buyMilk\<lparr>rdone := True\<rparr>] ?line = None" by simp
  have p2: "parseTodo plugin (trim ''- [x] Buy milk <!-- reminder-key:  -->'') = Some ?t2"
    by code_simp
  have k2: "keyMatch (body ?t2) = Some []" by code_simp
  have "find (matchesTodo ?t2) [buyMilk] = find (\<lambda>r. prefix (title r) (body ?t2)) [buyMilk]"
    by (rule reconcile_line[OF p2, of "[buyMilk]", THEN conjunct2, THEN conjunct1,
          rule_format, OF k2])
  then have e: "find (matchesTodo ?t2) [buyMilk] = Some buyMilk"
    by (simp add: buyMilk_def)
  let ?w = "vault checkedText"
  have hyp: "updateReminder plugin = setDone
            \<and> autoEmbedTodosInDailyNote ?w \<and> \<not> isUpdating ?w
            \<and> getDailyNoteDate plugin exactNote = Some ''2024-01-05''
            \<and> map_of (contents ?w) (path exactNote) = Some checkedText
            \<and> indexOf checkedText (startMarker (dailyNoteSectionMarker ?w)) = int 9
            \<and> indexOf checkedText (endMarker (dailyNoteSectionMarker ?w)) = int 102
            \<and> split_nl (substring checkedText
                       (int 9 + int (length (startMarker (dailyNoteSectionMarker ?w)))) (int 102))
               = split_nl (substring checkedText
                       (int 9 + int (length (startMarker (dailyNoteSectionMarker ?w)))) (int 102))
            \<and> consistentLines plugin (byDate ?w ''2024-01-05'')
                 (split_nl (substring checkedText
                       (int 9 + int (length (startMarker (dailyNoteSectionMarker ?w)))) (int 102)))
            \<and> \<not> list_all (\<lambda>l. lineUpdate plugin (byDate ?w ''2024-01-05'') l = None)
                 (split_nl (substring checkedText
                       (int 9 + int (length (startMarker (dailyNoteSectionMarker ?w)))) (int 102)))
            \<and> snd (handleFileModify plugin exactNote ?w) = snd (handleFileModify plugin exactNote ?w)"
  proof (intro conjI)
    show "updateReminder plugin = setDone" by (simp add: plugin_def)
    show "autoEmbedTodosInDailyNote ?w" by (simp add: vault_def)
    show "\<not> isUpdating ?w" by (simp add: vault_def)
    show "getDailyNoteDate plugin exactNote = Some ''2024-01-05''" by code_simp
    show "map_of (contents ?w) (path exactNote) = Some checkedText"
      by (simp add: vault_def exactNote_def)
    show "indexOf checkedText (startMarker (dailyNoteSectionMarker ?w)) = int 9" by code_simp
    show "indexOf checkedText (endMarker (dailyNoteSectionMarker ?w)) = int 102" by code_simp
    show "consistentLines plugin (byDate ?w ''2024-01-05'')
                 (split_nl (substring checkedText
                       (int 9 + int (length (startMarker (dailyNoteSectionMarker ?w)))) (int 102)))"
      by code_simp
    show "\<not> list_all (\<lambda>l. lineUpdate plugin (byDate ?w ''2024-01-05'') l = None)
                 (split_nl (substring checkedText
                       (int 9 + int (length (startMarker (dailyNoteSectionMarker ?w)))) (int 102)))"
      by code_simp
  qed simp_all
  note rr = inst[THEN conjunct2, THEN conjunct2, THEN conjunct2, THEN conjunct2,
          THEN conjunct2, THEN conjunct2, THEN conjunct2, rule_format, OF hyp]
  have second: "filter isSinkCall
         (trace (snd (handleFileModify plugin exactNote
                        (snd (handleFileModify plugin exactNote ?w)))))
       = filter isSinkCall (trace (snd (handleFileModify plugin exactNote ?w)))"
    by (rule rr[THEN conjunct2, THEN conjunct2, THEN conjunct2])
  have first: "filter isSinkCall (trace (snd (handleFileModify plugin exactNote ?w)))
       = [UpdateReminder buyMilk True]"
    by code_simp
  from k2 have k2': "keyMatch ''Buy milk <!-- reminder-key:  -->'' = Some []" by simp
  from k have k': "keyMatch ''Buy milk [[groceries.md|source]] <!-- reminder-key: abc123 -->''
      = Some ''abc123''" by simp
  from second first have second': "filter isSinkCall
         (trace (snd (handleFileModify plugin exactNote
                        (snd (handleFileModify plugin exactNote ?w)))))
       = [UpdateReminder buyMilk True]" by simp
  from p k' u n k2' e first second' show ?thesis by (intro conjI)
qed

text \<open>
  A key comment with an empty key is present and the reminder does not have that key, yet
  it is chosen, by its title. And a section with two lines for one reminder, one ticked
  and one not: the second run of \<open>handleFileModify\<close> calls the sink again, twice.
\<close>

theorem reconcile_counterexample:
  "parseTodo plugin (trim ''- [x] Buy milk <!-- reminder-key:  -->'')
     = Some \<lparr>body = ''Buy milk <!-- reminder-key:  -->'', checked = True\<rparr>
   \<and> keyMatch ''Buy milk <!-- reminder-key:  -->'' = Some []
   \<and> rkey buyMilk \<noteq> []
   \<and> lineUpdate plugin [buyMilk] ''- [x] Buy milk <!-- reminder-key:  -->'' = Some (buyMilk, True)
   \<and> trace (snd (handleFileModify plugin exactNote (vault conflictText)))
       = [VaultRead ''2024-01-05.md'', UpdateReminder buyMilk True,
          UpdateReminder (buyMilk\<lparr>rdone := True\<rparr>) False]
   \<and> trace (snd (handleFileModify plugin exactNote
                (snd (handleFileModify plugin exactNote (vault conflictText)))))
       = [VaultRead ''2024-01-05.md'', UpdateReminder buyMilk True,
          UpdateReminder (buyMilk\<lparr>rdone := True\<rparr>) False,
          VaultRead ''2024-01-05.md'', UpdateReminder buyMilk True,
          UpdateReminder (buyMilk\<lparr>rdone := True\<rparr>) False]"
  by code_simp

text \<open>
  C6. \<open>handleFileModify\<close> on a daily note with both markers, with the feature on and no
  update in flight: when no line of the section calls for an update, no sink call is made
  and the result is that of \<open>updateDailyNote\<close> with \<open>quiet = true\<close> and the date of the
  file, run in the state after the read. When some line calls for an update, the result
  is the outcome of the loop and the state the loop left: no render follows.
\<close>

theorem healing_rerender:
  assumes en: "autoEmbedTodosInDailyNote w" and nu: "\<not> isUpdating w"
    and dt: "getDailyNoteDate c file = Some fileDate"
    and rd: "map_of (contents w) (path file) = Some content"
    and s: "indexOf content (startMarker (dailyNoteSectionMarker w)) = int s"
    and e: "indexOf content (endMarker (dailyNoteSectionMarker w)) = int e"
    and ls: "ls = split_nl (substring content
                (int s + int (length (startMarker (dailyNoteSectionMarker w)))) (int e))"
    and w1: "w1 = emit (VaultRead (path file)) w"
  shows "(list_all (\<lambda>l. lineUpdate c (byDate w fileDate) l = None) ls \<longrightarrow>
            handleFileModify c file w = updateDailyNote True (Some fileDate) w1)
       \<and> (\<not> list_all (\<lambda>l. lineUpdate c (byDate w fileDate) l = None) ls \<longrightarrow>
            handleFileModify c file w =
              (fst (syncLines c ls (byDate w fileDate) False w1),
               snd (snd (syncLines c ls (byDate w fileDate) False w1))))"
proof (intro conjI impI)
  assume "list_all (\<lambda>l. lineUpdate c (byDate w fileDate) l = None) ls"
  then have "syncLines c ls (byDate w fileDate) False w1 = (None, False, w1)"
    by (rule syncLines_no_update)
  then show "handleFileModify c file w = updateDailyNote True (Some fileDate) w1"
    unfolding handleFileModify_section[OF en nu dt rd s e] ls[symmetric] w1[symmetric]
    by simp
next
  assume some: "\<not> list_all (\<lambda>l. lineUpdate c (byDate w fileDate) l = None) ls"
  obtain thr ch w2 where r: "syncLines c ls (byDate w fileDate) False w1 = (thr, ch, w2)"
    by (cases "syncLines c ls (byDate w fileDate) False w1") auto
  show "handleFileModify c file w =
              (fst (syncLines c ls (byDate w fileDate) False w1),
               snd (snd (syncLines c ls (byDate w fileDate) False w1)))"
  proof (cases thr)
    case None
    with r syncLines_some_update[OF some] have "ch" by blast
    with None r show ?thesis
      unfolding handleFileModify_section[OF en nu dt rd s e] ls[symmetric] w1[symmetric]
      by simp
  next
    case (Some err)
    with r show ?thesis
      unfolding handleFileModify_section[OF en nu dt rd s e] ls[symmetric] w1[symmetric]
      by simp
  qed
qed

theorem healing_rerender_witness:
  "handleFileModify plugin exactNote (vault renderedText)
     = updateDailyNote True (Some ''2024-01-05'')
         (emit (VaultRead ''2024-01-05.md'') (vault renderedText))
   \<and> trace (snd (handleFileModify plugin exactNote (vault renderedText)))
       = [VaultRead ''2024-01-05.md'', GetMarkdownFiles, VaultRead ''2024-01-05.md'']
   \<and> trace (snd (handleFileModify plugin exactNote (vault checkedText)))
       = [VaultRead ''2024-01-05.md'', UpdateReminder buyMilk True]"
proof -
  let ?w = "vault renderedText" and ?v = "vault checkedText"
  have dt: "getDailyNoteDate plugin exactNote = Some ''2024-01-05''" by code_simp
  have p: "path exactNote = ''2024-01-05.md''" by (simp add: exactNote_def)
  have en: "autoEmbedTodosInDailyNote ?w" and nu: "\<not> isUpdating ?w"
    and rd: "map_of (contents ?w) (path exactNote) = Some renderedText"
    by (simp_all add: vault_def exactNote_def)
  have env: "autoEmbedTodosInDailyNote ?v" and nuv: "\<not> isUpdating ?v"
    and rdv: "map_of (contents ?v) (path exactNote) = Some checkedText"
    by (simp_all add: vault_def exactNote_def)
  have s: "indexOf renderedText (startMarker (dailyNoteSectionMarker ?w)) = int 9" by code_simp
  have e: "indexOf renderedText (endMarker (dailyNoteSectionMarker ?w)) = int 102" by code_simp
  have sv: "indexOf checkedText (startMarker (dailyNoteSectionMarker ?v)) = int 9" by code_simp
  have ev: "indexOf checkedText (endMarker (dailyNoteSectionMarker ?v)) = int 102" by code_simp
  note a = healing_rerender[OF en nu dt rd s e refl refl]
  note b = healing_rerender[OF env nuv dt rdv sv ev refl refl]
  have "list_all (\<lambda>l. lineUpdate plugin (byDate ?w ''2024-01-05'') l = None)
          (split_nl (substring renderedText
             (int 9 + int (length (startMarker (dailyNoteSectionMarker ?w)))) (int 102)))"
    by code_simp
  with a have 1: "handleFileModify plugin exactNote ?w
     = updateDailyNote True (Some ''2024-01-05'') (emit (VaultRead (path exactNote)) ?w)"
    by blast
  have 2: "trace (snd (updateDailyNote True (Some ''2024-01-05'') (emit (VaultRead (path exactNote)) ?w)))
       = [VaultRead ''2024-01-05.md'', GetMarkdownFiles, VaultRead ''2024-01-05.md'']"
    by code_simp
  have "\<not> list_all (\<lambda>l. lineUpdate plugin (byDate ?v ''2024-01-05'') l = None)
          (split_nl (substring checkedText
             (int 9 + int (length (startMarker (dailyNoteSectionMarker ?v)))) (int 102)))"
    by code_simp
  with b have 3: "handleFileModify plugin exactNote ?v =
      (fst (syncLines plugin (split_nl (substring checkedText
             (int 9 + int (length (startMarker (dailyNoteSectionMarker ?v)))) (int 102)))
             (byDate ?v ''2024-01-05'') False (emit (VaultRead (path exactNote)) ?v)),
       snd (snd (syncLines plugin (split_nl (substring checkedText
             (int 9 + int (length (startMarker (dailyNoteSectionMarker ?v)))) (int 102)))
             (byDate ?v ''2024-01-05'') False (emit (VaultRead (path exactNote)) ?v))))"
    by blast
  have 4: "trace (snd (snd (syncLines plugin (split_nl (substring checkedText
             (int 9 + int (length (startMarker (dailyNoteSectionMarker ?v)))) (int 102)))
             (byDate ?v ''2024-01-05'') False (emit (VaultRead (path exactNote)) ?v))))
       = [VaultRead ''2024-01-05.md'', UpdateReminder buyMilk True]"
    by code_simp
  from 1 2 3 4 show ?thesis by (simp add: p)
qed

text \<open>
  C7. While \<open>isUpdating\<close> is set, \<open>updateDailyNote\<close> and \<open>handleFileModify\<close> return
  at once and leave the state, with its trace, exactly as it was: no enumeration, read,
  write, notice or sink call.
\<close>

theorem guard_noop:
  "isUpdating w \<Longrightarrow>
   updateDailyNote quiet sd w = (None, w) \<and> handleFileModify c file w = (None, w)"
  by (simp add: updateDailyNote_def updateDailyNoteWith_def handleFileModify_def)

theorem guard_noop_witness:
  "isUpdating ((vault dailyText)\<lparr>isUpdating := True\<rparr>)
   \<and> updateDailyNote False None ((vault dailyText)\<lparr>isUpdating := True\<rparr>)
       = (None, (vault dailyText)\<lparr>isUpdating := True\<rparr>)
   \<and> handleFileModify plugin exactNote ((vault dailyText)\<lparr>isUpdating := True\<rparr>)
       = (None, (vault dailyText)\<lparr>isUpdating := True\<rparr>)"
proof -
  have g: "isUpdating ((vault dailyText)\<lparr>isUpdating := True\<rparr>)" by simp
  from guard_noop[OF g, of False None plugin exactNote] g show ?thesis by blast
qed

text \<open>
  C8, as the code has it. When \<open>getMarkdownFiles\<close> returns, \<open>updateDailyNote\<close>
  returns normally whatever is thrown inside the \<open>try\<close>, by \<open>byDate\<close>, by the read,
  by a \<open>key()\<close> of the section rewrite or by the write, and \<open>isUpdating\<close> is afterwards
  what it was before: the guard this call set is cleared. Each of the four failures ends
  in the \<open>console.error\<close> of the catch block and, unless quiet, the failure notice, and
  leaves the vault as it was. The theorem is about \<open>updateDailyNoteWith\<close> under any
  faults; \<open>updateDailyNote\<close> is the case without.
\<close>

theorem failures_caught:
  assumes fs: "markdownFiles w = Inr files"
  shows "fst (updateDailyNoteWith k quiet sd w) = None
       \<and> isUpdating (snd (updateDailyNoteWith k quiet sd w)) = isUpdating w
       \<and> updateDailyNote quiet sd w = updateDailyNoteWith noFaults quiet sd w
       \<and> (\<forall>td f e. autoEmbedTodosInDailyNote w \<and> \<not> isUpdating w
             \<and> (case sd of Some d \<Rightarrow> d | None \<Rightarrow> today w) = td
             \<and> findDailyNote td files = Some f
             \<and> byDateFault k = Some e \<longrightarrow>
           updateDailyNoteWith k quiet sd w =
             (None, w\<lparr>trace := trace w @ [GetMarkdownFiles, ConsoleError e]
                        @ (if quiet then [] else [Notice UpdateFailed])\<rparr>))
       \<and> (\<forall>td f. autoEmbedTodosInDailyNote w \<and> \<not> isUpdating w
             \<and> (case sd of Some d \<Rightarrow> d | None \<Rightarrow> today w) = td
             \<and> findDailyNote td files = Some f
             \<and> byDateFault k = None
             \<and> map_of (contents w) (path f) = None \<longrightarrow>
           updateDailyNoteWith k quiet sd w =
             (None, w\<lparr>trace := trace w @ [GetMarkdownFiles, VaultRead (path f),
                                        ConsoleError (ReadError (path f))]
                        @ (if quiet then [] else [Notice UpdateFailed])\<rparr>))
       \<and> (\<forall>td f content e. autoEmbedTodosInDailyNote w \<and> \<not> isUpdating w
             \<and> (case sd of Some d \<Rightarrow> d | None \<Rightarrow> today w) = td
             \<and> findDailyNote td files = Some f
             \<and> byDateFault k = None
             \<and> map_of (contents w) (path f) = Some content
             \<and> indexOf content (startMarker (dailyNoteSectionMarker w)) \<noteq> - 1
             \<and> indexOf content (endMarker (dailyNoteSectionMarker w)) \<noteq> - 1
             \<and> firstFault (keyFault k) (byDate w td) = Some e \<longrightarrow>
           updateDailyNoteWith k quiet sd w =
             (None, w\<lparr>trace := trace w @ [GetMarkdownFiles, VaultRead (path f),
                                        ConsoleError e]
                        @ (if quiet then [] else [Notice UpdateFailed])\<rparr>))
       \<and> (\<forall>td f content new. autoEmbedTodosInDailyNote w \<and> \<not> isUpdating w
             \<and> (case sd of Some d \<Rightarrow> d | None \<Rightarrow> today w) = td
             \<and> findDailyNote td files = Some f
             \<and> byDateFault k = None
             \<and> map_of (contents w) (path f) = Some content
             \<and> firstFault (keyFault k) (byDate w td) = None
             \<and> updateReminderSection (dailyNoteSectionMarker w) content (byDate w td) = Some new
             \<and> content \<noteq> new \<and> path f \<in> set (readOnly w) \<longrightarrow>
           updateDailyNoteWith k quiet sd w =
             (None, w\<lparr>trace := trace w @ [GetMarkdownFiles, VaultRead (path f),
                                        VaultModify (path f) new,
                                        ConsoleError (WriteError (path f))]
                        @ (if quiet then [] else [Notice UpdateFailed])\<rparr>))"
proof (intro conjI allI impI)
  show "fst (updateDailyNoteWith k quiet sd w) = None"
    using updateDailyNoteWith_returns[OF fs] by blast
  show "isUpdating (snd (updateDailyNoteWith k quiet sd w)) = isUpdating w"
    using updateDailyNoteWith_returns[OF fs] by blast
  show "updateDailyNote quiet sd w = updateDailyNoteWith noFaults quiet sd w"
    by (simp add: updateDailyNote_def)
next
  fix td f e
  assume "autoEmbedTodosInDailyNote w \<and> \<not> isUpdating w
             \<and> (case sd of Some d \<Rightarrow> d | None \<Rightarrow> today w) = td
             \<and> findDailyNote td files = Some f
             \<and> byDateFault k = Some e"
  then show "updateDailyNoteWith k quiet sd w =
             (None, w\<lparr>trace := trace w @ [GetMarkdownFiles, ConsoleError e]
                        @ (if quiet then [] else [Notice UpdateFailed])\<rparr>)"
    using updateDailyNoteWith_byDate_fails[OF _ _ fs, of sd td f k e quiet] by blast
next
  fix td f
  assume "autoEmbedTodosInDailyNote w \<and> \<not> isUpdating w
             \<and> (case sd of Some d \<Rightarrow> d | None \<Rightarrow> today w) = td
             \<and> findDailyNote td files = Some f
             \<and> byDateFault k = None
             \<and> map_of (contents w) (path f) = None"
  then show "updateDailyNoteWith k quiet sd w =
             (None, w\<lparr>trace := trace w @ [GetMarkdownFiles, VaultRead (path f),
                                        ConsoleError (ReadError (path f))]
                        @ (if quiet then [] else [Notice UpdateFailed])\<rparr>)"
    using updateDailyNoteWith_read_fails[OF _ _ fs, of sd td f k quiet] by blast
next
  fix td f content e
  assume "autoEmbedTodosInDailyNote w \<and> \<not> isUpdating w
             \<and> (case sd of Some d \<Rightarrow> d | None \<Rightarrow> today w) = td
             \<and> findDailyNote td files = Some f
             \<and> byDateFault k = None
             \<and> map_of (contents w) (path f) = Some content
             \<and> indexOf content (startMarker (dailyNoteSectionMarker w)) \<noteq> - 1
             \<and> indexOf content (endMarker (dailyNoteSectionMarker w)) \<noteq> - 1
             \<and> firstFault (keyFault k) (byDate w td) = Some e"
  then show "updateDailyNoteWith k quiet sd w =
             (None, w\<lparr>trace := trace w @ [GetMarkdownFiles, VaultRead (path f),
                                        ConsoleError e]
                        @ (if quiet then [] else [Notice UpdateFailed])\<rparr>)"
    using updateDailyNoteWith_key_fails[OF _ _ fs, of sd td f k content e quiet] by blast
next
  fix td f content new
  assume "autoEmbedTodosInDailyNote w \<and> \<not> isUpdating w
             \<and> (case sd of Some d \<Rightarrow> d | None \<Rightarrow> today w) = td
             \<and> findDailyNote td files = Some f
             \<and> byDateFault k = None
             \<and> map_of (contents w) (path f) = Some content
             \<and> firstFault (keyFault k) (byDate w td) = None
             \<and> updateReminderSection (dailyNoteSectionMarker w) content (byDate w td) = Some new
             \<and> content \<noteq> new \<and> path f \<in> set (readOnly w)"
  then show "updateDailyNoteWith k quiet sd w =
             (None, w\<lparr>trace := trace w @ [GetMarkdownFiles, VaultRead (path f),
                                        VaultModify (path f) new,
                                        ConsoleError (WriteError (path f))]
                        @ (if quiet then [] else [Notice UpdateFailed])\<rparr>)"
    using updateDailyNoteWith_write_fails[OF _ _ fs, of sd td f k content new quiet] by blast
qed

theorem failures_caught_witness:
  "updateDailyNoteWith brokenKeys False None (vault dailyText) =
        (None, (vault dailyText)\<lparr>trace := [GetMarkdownFiles, VaultRead ''2024-01-05.md'',
                     ConsoleError (KeyError ''abc123''), Notice UpdateFailed]\<rparr>)
   \<and> updateDailyNoteWith brokenCollection True None (vault dailyText) =
        (None, (vault dailyText)\<lparr>trace := [GetMarkdownFiles, ConsoleError ByDateError]\<rparr>)
   \<and> updateDailyNote False None ((vault dailyText)\<lparr>contents := []\<rparr>) =
        (None, (vault dailyText)\<lparr>contents := [],
           trace := [GetMarkdownFiles, VaultRead ''2024-01-05.md'',
                     ConsoleError (ReadError ''2024-01-05.md''), Notice UpdateFailed]\<rparr>)
   \<and> updateDailyNote True None ((vault dailyText)\<lparr>readOnly := [''2024-01-05.md'']\<rparr>) =
        (None, (vault dailyText)\<lparr>readOnly := [''2024-01-05.md''],
           trace := [GetMarkdownFiles, VaultRead ''2024-01-05.md'',
                     VaultModify ''2024-01-05.md'' renderedText,
                     ConsoleError (WriteError ''2024-01-05.md'')]\<rparr>)
   \<and> fst (updateDailyNoteWith brokenKeys False None (vault dailyText)) = None
   \<and> \<not> isUpdating (snd (updateDailyNoteWith brokenKeys False None (vault dailyText)))"
proof -
  let ?u = "vault dailyText"
  let ?w = "(vault dailyText)\<lparr>contents := []\<rparr>"
  let ?v = "(vault dailyText)\<lparr>readOnly := [''2024-01-05.md'']\<rparr>"
  have fu: "markdownFiles ?u = Inr [backupNote, exactNote]" by (simp add: vault_def)
  have fs: "markdownFiles ?w = Inr [backupNote, exactNote]" by (simp add: vault_def)
  have fv: "markdownFiles ?v = Inr [backupNote, exactNote]" by (simp add: vault_def)
  note k = failures_caught[OF fu, of brokenKeys False None]
  note c = failures_caught[OF fu, of brokenCollection True None]
  note a = failures_caught[OF fs, of noFaults False None]
  note b = failures_caught[OF fv, of noFaults True None]
  have p: "path exactNote = ''2024-01-05.md''" by (simp add: exactNote_def)
  have t: "trace (vault dailyText) = []" by (simp add: vault_def)
  have s1: "indexOf dailyText (startMarker ''todos'') \<noteq> - 1" by code_simp
  have e1: "indexOf dailyText (endMarker ''todos'') \<noteq> - 1" by code_simp
  have ff: "firstFault (keyFault brokenKeys) [buyMilk] = Some (KeyError ''abc123'')"
    by (simp add: brokenKeys_def buyMilk_def)
  have hk: "autoEmbedTodosInDailyNote ?u \<and> \<not> isUpdating ?u
             \<and> (case None of Some d \<Rightarrow> d | None \<Rightarrow> today ?u) = ''2024-01-05''
             \<and> findDailyNote ''2024-01-05'' [backupNote, exactNote] = Some exactNote
             \<and> byDateFault brokenKeys = None
             \<and> map_of (contents ?u) (path exactNote) = Some dailyText
             \<and> indexOf dailyText (startMarker (dailyNoteSectionMarker ?u)) \<noteq> - 1
             \<and> indexOf dailyText (endMarker (dailyNoteSectionMarker ?u)) \<noteq> - 1
             \<and> firstFault (keyFault brokenKeys) (byDate ?u ''2024-01-05'') = Some (KeyError ''abc123'')"
    using vault_target s1 e1 ff by (simp add: vault_def p brokenKeys_def)
  have 0: "updateDailyNoteWith brokenKeys False None ?u =
             (None, ?u\<lparr>trace := trace ?u @ [GetMarkdownFiles, VaultRead (path exactNote),
                                        ConsoleError (KeyError ''abc123'')]
                        @ (if False then [] else [Notice UpdateFailed])\<rparr>)"
    by (rule k[THEN conjunct2, THEN conjunct2, THEN conjunct2, THEN conjunct2, THEN conjunct2,
          THEN conjunct1, rule_format, OF hk])
  have hc: "autoEmbedTodosInDailyNote ?u \<and> \<not> isUpdating ?u
             \<and> (case None of Some d \<Rightarrow> d | None \<Rightarrow> today ?u) = ''2024-01-05''
             \<and> findDailyNote ''2024-01-05'' [backupNote, exactNote] = Some exactNote
             \<and> byDateFault brokenCollection = Some ByDateError"
    using vault_target by (simp add: vault_def brokenCollection_def)
  have 3: "updateDailyNoteWith brokenCollection True None ?u =
             (None, ?u\<lparr>trace := trace ?u @ [GetMarkdownFiles, ConsoleError ByDateError]
                        @ (if True then [] else [Notice UpdateFailed])\<rparr>)"
    by (rule c[THEN conjunct2, THEN conjunct2, THEN conjunct2, THEN conjunct1, rule_format,
          OF hc])
  have ha: "autoEmbedTodosInDailyNote ?w \<and> \<not> isUpdating ?w
             \<and> (case None of Some d \<Rightarrow> d | None \<Rightarrow> today ?w) = ''2024-01-05''
             \<and> findDailyNote ''2024-01-05'' [backupNote, exactNote] = Some exactNote
             \<and> byDateFault noFaults = None
             \<and> map_of (contents ?w) (path exactNote) = None"
    using vault_target by (simp add: vault_def noFaults_def)
  have 1: "updateDailyNoteWith noFaults False None ?w =
             (None, ?w\<lparr>trace := trace ?w @ [GetMarkdownFiles, VaultRead (path exactNote),
                                        ConsoleError (ReadError (path exactNote))]
                        @ (if False then [] else [Notice UpdateFailed])\<rparr>)"
    by (rule a[THEN conjunct2, THEN conjunct2, THEN conjunct2, THEN conjunct2, THEN conjunct1,
          rule_format, OF ha])
  have r: "updateReminderSection ''todos'' dailyText [buyMilk] = Some renderedText"
    by code_simp
  have ne: "dailyText \<noteq> renderedText" by code_simp
  have hb: "autoEmbedTodosInDailyNote ?v \<and> \<not> isUpdating ?v
             \<and> (case None of Some d \<Rightarrow> d | None \<Rightarrow> today ?v) = ''2024-01-05''
             \<and> findDailyNote ''2024-01-05'' [backupNote, exactNote] = Some exactNote
             \<and> byDateFault noFaults = None
             \<and> map_of (contents ?v) (path exactNote) = Some dailyText
             \<and> firstFault (keyFault noFaults) (byDate ?v ''2024-01-05'') = None
             \<and> updateReminderSection (dailyNoteSectionMarker ?v) dailyText (byDate ?v ''2024-01-05'')
                   = Some renderedText
             \<and> dailyText \<noteq> renderedText \<and> path exactNote \<in> set (readOnly ?v)"
    using vault_target r ne by (simp add: vault_def exactNote_def noFaults_def)
  have 2: "updateDailyNoteWith noFaults True None ?v =
             (None, ?v\<lparr>trace := trace ?v @ [GetMarkdownFiles, VaultRead (path exactNote),
                                        VaultModify (path exactNote) renderedText,
                                        ConsoleError (WriteError (path exactNote))]
                        @ (if True then [] else [Notice UpdateFailed])\<rparr>)"
    by (rule b[THEN conjunct2, THEN conjunct2, THEN conjunct2, THEN conjunct2, THEN conjunct2,
          THEN conjunct2, rule_format, OF hb])
  have la: "updateDailyNote False None ?w = updateDailyNoteWith noFaults False None ?w"
    by (rule a[THEN conjunct2, THEN conjunct2, THEN conjunct1])
  have lb: "updateDailyNote True None ?v = updateDailyNoteWith noFaults True None ?v"
    by (rule b[THEN conjunct2, THEN conjunct2, THEN conjunct1])
  have g: "\<not> isUpdating ?u" by (simp add: vault_def)
  have f1: "fst (updateDailyNoteWith brokenKeys False None ?u) = None"
    by (rule k[THEN conjunct1])
  have f2: "isUpdating (snd (updateDailyNoteWith brokenKeys False None ?u)) = isUpdating ?u"
    by (rule k[THEN conjunct2, THEN conjunct1])
  have r0: "updateDailyNoteWith brokenKeys False None (vault dailyText) =
        (None, (vault dailyText)\<lparr>trace := [GetMarkdownFiles, VaultRead ''2024-01-05.md'',
                     ConsoleError (KeyError ''abc123''), Notice UpdateFailed]\<rparr>)"
    using 0 by (simp add: p t)
  have r3: "updateDailyNoteWith brokenCollection True None (vault dailyText) =
        (None, (vault dailyText)\<lparr>trace := [GetMarkdownFiles, ConsoleError ByDateError]\<rparr>)"
    using 3 by (simp add: t)
  have r1: "updateDailyNote False None ?w =
        (None, (vault dailyText)\<lparr>contents := [],
           trace := [GetMarkdownFiles, VaultRead ''2024-01-05.md'',
                     ConsoleError (ReadError ''2024-01-05.md''), Notice UpdateFailed]\<rparr>)"
    using 1 la by (simp add: p t)
  have r2: "updateDailyNote True None ?v =
        (None, (vault dailyText)\<lparr>readOnly := [''2024-01-05.md''],
           trace := [GetMarkdownFiles, VaultRead ''2024-01-05.md'',
                     VaultModify ''2024-01-05.md'' renderedText,
                     ConsoleError (WriteError ''2024-01-05.md'')]\<rparr>)"
    using 2 lb by (simp add: p t)
  from f2 g have g': "\<not> isUpdating (snd (updateDailyNoteWith brokenKeys False None ?u))"
    by simp
  from r0 r3 r1 r2 f1 g' show ?thesis by (intro conjI)
qed

text \<open>
  \<open>findDailyNote\<close> runs before the \<open>try\<close>: what \<open>getMarkdownFiles\<close> throws reaches
  the caller.
\<close>

theorem enumeration_failure_counterexample:
  "updateDailyNote True None ((vault dailyText)\<lparr>markdownFiles := Inl EnumerateError\<rparr>) =
     (Some EnumerateError,
      (vault dailyText)\<lparr>markdownFiles := Inl EnumerateError, trace := [GetMarkdownFiles]\<rparr>)"
  by (simp add: updateDailyNote_def updateDailyNoteWith_def emit_def vault_def Let_def)

text \<open>
  C9. When some file's basename is the date text, \<open>findDailyNote\<close> returns a file whose
  basename is the date text, whatever the modification times. When none is but the name
  of some file contains the date text, it returns such a file. When neither holds it
  returns \<open>None\<close>.
\<close>

theorem exact_match_first:
  "((\<exists>g \<in> set files. basename g = d) \<longrightarrow>
      (\<exists>f. findDailyNote d files = Some f \<and> f \<in> set files \<and> basename f = d))
   \<and> ((\<forall>g \<in> set files. basename g \<noteq> d) \<and> (\<exists>g \<in> set files. str_includes (name g) d) \<longrightarrow>
      (\<exists>f. findDailyNote d files = Some f \<and> f \<in> set files \<and> str_includes (name f) d))
   \<and> ((\<forall>g \<in> set files. basename g \<noteq> d) \<and> (\<forall>g \<in> set files. \<not> str_includes (name g) d) \<longrightarrow>
      findDailyNote d files = None)"
proof (intro conjI impI)
  assume "\<exists>g \<in> set files. basename g = d"
  then have ne: "exactMatches d files \<noteq> []"
    by (auto simp: exactMatches_def filter_empty_conv)
  then have m: "matchingFiles d files = exactMatches d files"
    by (simp add: matchingFiles_def)
  from picked[OF m ne] show "\<exists>f. findDailyNote d files = Some f \<and> f \<in> set files \<and> basename f = d"
    by (auto simp: exactMatches_def)
next
  assume a: "(\<forall>g \<in> set files. basename g \<noteq> d) \<and> (\<exists>g \<in> set files. str_includes (name g) d)"
  then have "exactMatches d files = []"
    by (auto simp: exactMatches_def filter_empty_conv)
  then have m: "matchingFiles d files = looseMatches d files"
    by (simp add: matchingFiles_def)
  from a have ne: "looseMatches d files \<noteq> []"
    by (auto simp: looseMatches_def filter_empty_conv)
  from picked[OF m ne]
  show "\<exists>f. findDailyNote d files = Some f \<and> f \<in> set files \<and> str_includes (name f) d"
    by (auto simp: looseMatches_def)
next
  assume a: "(\<forall>g \<in> set files. basename g \<noteq> d) \<and> (\<forall>g \<in> set files. \<not> str_includes (name g) d)"
  then have "exactMatches d files = []" "looseMatches d files = []"
    by (auto simp: exactMatches_def looseMatches_def filter_empty_conv)
  then show "findDailyNote d files = None"
    by (simp add: findDailyNote_def matchingFiles_def)
qed

theorem exact_match_first_witness:
  "(\<exists>g \<in> set [backupNote, exactNote]. basename g = ''2024-01-05'')
   \<and> str_includes (name backupNote) ''2024-01-05''
   \<and> mtime exactNote < mtime backupNote
   \<and> findDailyNote ''2024-01-05'' [backupNote, exactNote] = Some exactNote
   \<and> findDailyNote ''2024-01-05'' [backupNote] = Some backupNote
   \<and> findDailyNote ''2024-01-06'' [backupNote, exactNote] = None"
proof -
  have e: "\<exists>g \<in> set [backupNote, exactNote]. basename g = ''2024-01-05''"
    by (simp add: exactNote_def)
  with exact_match_first[of "[backupNote, exactNote]" "''2024-01-05''"]
  obtain f where f: "findDailyNote ''2024-01-05'' [backupNote, exactNote] = Some f"
    "f \<in> set [backupNote, exactNote]" "basename f = ''2024-01-05''" by blast
  then have "f = exactNote" by (auto simp: backupNote_def)
  with f have 1: "findDailyNote ''2024-01-05'' [backupNote, exactNote] = Some exactNote" by simp
  have i: "str_includes (name backupNote) ''2024-01-05''" by code_simp
  have "(\<forall>g \<in> set [backupNote]. basename g \<noteq> ''2024-01-05'')
      \<and> (\<exists>g \<in> set [backupNote]. str_includes (name g) ''2024-01-05'')"
    using i by (simp add: backupNote_def)
  with exact_match_first[of "[backupNote]" "''2024-01-05''"]
  have 2: "findDailyNote ''2024-01-05'' [backupNote] = Some backupNote" by auto
  have n1: "\<not> str_includes (name backupNote) ''2024-01-06''" by code_simp
  have n2: "\<not> str_includes (name exactNote) ''2024-01-06''" by code_simp
  have "(\<forall>g \<in> set [backupNote, exactNote]. basename g \<noteq> ''2024-01-06'')
      \<and> (\<forall>g \<in> set [backupNote, exactNote]. \<not> str_includes (name g) ''2024-01-06'')"
    using n1 n2 by (simp add: backupNote_def exactNote_def)
  with exact_match_first[of "[backupNote, exactNote]" "''2024-01-06''"]
  have 3: "findDailyNote ''2024-01-06'' [backupNote, exactNote] = None" by blast
  have m: "mtime exactNote < mtime backupNote" by (simp add: exactNote_def backupNote_def)
  from e i m 1 2 3 show ?thesis by blast
qed

text \<open>
  C10. When the end marker's first occurrence starts before the start marker's,
  \<open>updateReminderSection\<close> does not return \<open>None\<close>: it splices the new section in at
  the start marker and resumes the old text after the end marker. The end marker then
  also ends before the start marker begins whenever the label holds no \<open><\<close>, and
  whenever it does so the text is \<open>A @ end @ B @ start @ C\<close> and the result is
  \<open>A @ end @ B @ new section @ B @ start @ C\<close>: the text \<open>B\<close> between the two markers
  stands twice and the old start marker follows the new section.
\<close>

theorem reversed_markers_duplicate:
  assumes e: "indexOf content (endMarker m) = int e"
    and s: "indexOf content (startMarker m) = int s"
    and lt: "e < s"
  shows "updateReminderSection m content rs =
           Some (take s content @ newSection m rs @ drop (e + length (endMarker m)) content)
       \<and> (CHR ''<'' \<notin> set m \<longrightarrow> e + length (endMarker m) \<le> s)
       \<and> (e + length (endMarker m) \<le> s \<longrightarrow>
           content = take e content @ endMarker m
             @ take (s - (e + length (endMarker m))) (drop (e + length (endMarker m)) content)
             @ startMarker m @ drop (s + length (startMarker m)) content
           \<and> updateReminderSection m content rs =
             Some (take e content @ endMarker m
               @ take (s - (e + length (endMarker m))) (drop (e + length (endMarker m)) content)
               @ newSection m rs
               @ take (s - (e + length (endMarker m))) (drop (e + length (endMarker m)) content)
               @ startMarker m @ drop (s + length (startMarker m)) content))"
  using updateReminderSection_found[OF s e, of rs] markers_disjoint[OF e s lt]
    reversed_split[OF e s, of rs]
  by blast


theorem reversed_markers_duplicate_witness:
  "indexOf reversedText (endMarker ''todos'') = 0
   \<and> indexOf reversedText (startMarker ''todos'') = 28
   \<and> reversedText = ''<!-- end of todos -->'' @ ''\<newline>notes\<newline>'' @ ''<!-- start of todos -->''
   \<and> updateReminderSection ''todos'' reversedText [buyMilk] =
       Some (''<!-- end of todos -->'' @ ''\<newline>notes\<newline>'' @ newSection ''todos'' [buyMilk]
             @ ''\<newline>notes\<newline>'' @ ''<!-- start of todos -->'')"
proof -
  have e: "indexOf reversedText (endMarker ''todos'') = int 0" by code_simp
  have s: "indexOf reversedText (startMarker ''todos'') = int 28" by code_simp
  have lt: "(0::nat) < 28" by simp
  have le: "0 + length (endMarker ''todos'') \<le> 28" by code_simp
  have 2: "take (28 - (0 + length (endMarker ''todos'')))
             (drop (0 + length (endMarker ''todos'')) reversedText) = ''\<newline>notes\<newline>''"
    by code_simp
  have 3: "drop (28 + length (startMarker ''todos'')) reversedText = []" by code_simp
  have 4: "endMarker ''todos'' = ''<!-- end of todos -->''" by code_simp
  have 5: "startMarker ''todos'' = ''<!-- start of todos -->''" by code_simp
  from reversed_markers_duplicate[OF e s lt, of "[buyMilk]"] le
  have "reversedText = take 0 reversedText @ endMarker ''todos''
             @ take (28 - (0 + length (endMarker ''todos'')))
                 (drop (0 + length (endMarker ''todos'')) reversedText)
             @ startMarker ''todos'' @ drop (28 + length (startMarker ''todos'')) reversedText
         \<and> updateReminderSection ''todos'' reversedText [buyMilk] =
             Some (take 0 reversedText @ endMarker ''todos''
               @ take (28 - (0 + length (endMarker ''todos'')))
                   (drop (0 + length (endMarker ''todos'')) reversedText)
               @ newSection ''todos'' [buyMilk]
               @ take (28 - (0 + length (endMarker ''todos'')))
                   (drop (0 + length (endMarker ''todos'')) reversedText)
               @ startMarker ''todos'' @ drop (28 + length (startMarker ''todos'')) reversedText)"
    by blast
  then have "reversedText = ''<!-- end of todos -->'' @ ''\<newline>notes\<newline>'' @ ''<!-- start of todos -->''"
    and "updateReminderSection ''todos'' reversedText [buyMilk] =
       Some (''<!-- end of todos -->'' @ ''\<newline>notes\<newline>'' @ newSection ''todos'' [buyMilk]
             @ ''\<newline>notes\<newline>'' @ ''<!-- start of todos -->'')"
    unfolding 2 3 unfolding 4 5 by simp_all
  with e s show ?thesis by simp
qed

end
